theory Spec2Isabelle
  imports Main "HOL-Library.Word"
begin

section \<open>Package input: key events and the aggregator queue\<close>

text \<open>
  The repository holds two versions of the input package (both in the same source file,
  one after the other). The first tracks press and release per device
  (\<open>keyStates\<close>) and accepts devices by capability; the second accepts devices by
  name pattern and has the keyboard fallback reader \<open>listenKeyboard\<close>. Definitions of
  the second version that share a name with the first carry the suffix \<open>_np\<close>.
\<close>

type_synonym byte = "8 word"
type_synonym uint16 = "16 word"
type_synonym int32 = "32 word"

text \<open>\<open>type KeyCode int\<close> with the \<open>iota\<close> constants 0..5.\<close>

type_synonym KeyCode = int

definition KeyUnknown :: KeyCode where "KeyUnknown = 0"
definition KeyUp :: KeyCode where "KeyUp = 1"
definition KeyDown :: KeyCode where "KeyDown = 2"
definition KeySelect :: KeyCode where "KeySelect = 3"
definition KeyEscape :: KeyCode where "KeyEscape = 4"
definition KeyQuit :: KeyCode where "KeyQuit = 5"

lemmas KeyCode_defs =
  KeyUnknown_def KeyUp_def KeyDown_def KeySelect_def KeyEscape_def KeyQuit_def

datatype EventType = KeyPress | KeyRelease

record KeyEvent =
  Code :: KeyCode
  Type :: EventType

text \<open>The Linux input event record; the timestamp is never read by the code.\<close>

record inputEvent =
  ev_Type :: uint16
  ev_Code :: uint16
  ev_Value :: int32

abbreviation EV_KEY :: uint16 where "EV_KEY \<equiv> 1"
abbreviation EV_SYN :: uint16 where "EV_SYN \<equiv> 0"

abbreviation KEY_ESC :: uint16 where "KEY_ESC \<equiv> 1"
abbreviation KEY_1 :: uint16 where "KEY_1 \<equiv> 2"
abbreviation KEY_2 :: uint16 where "KEY_2 \<equiv> 3"
abbreviation KEY_3 :: uint16 where "KEY_3 \<equiv> 4"
abbreviation KEY_4 :: uint16 where "KEY_4 \<equiv> 5"
abbreviation KEY_5 :: uint16 where "KEY_5 \<equiv> 6"
abbreviation KEY_6 :: uint16 where "KEY_6 \<equiv> 7"
abbreviation KEY_7 :: uint16 where "KEY_7 \<equiv> 8"
abbreviation KEY_8 :: uint16 where "KEY_8 \<equiv> 9"
abbreviation KEY_9 :: uint16 where "KEY_9 \<equiv> 10"
abbreviation KEY_Q :: uint16 where "KEY_Q \<equiv> 16"
abbreviation KEY_ENTER :: uint16 where "KEY_ENTER \<equiv> 28"
abbreviation KEY_UP :: uint16 where "KEY_UP \<equiv> 103"
abbreviation KEY_DOWN :: uint16 where "KEY_DOWN \<equiv> 108"
abbreviation KEY_VOLUMEDOWN :: uint16 where "KEY_VOLUMEDOWN \<equiv> 114"
abbreviation KEY_VOLUMEUP :: uint16 where "KEY_VOLUMEUP \<equiv> 115"
abbreviation KEY_POWER :: uint16 where "KEY_POWER \<equiv> 116"

subsection \<open>Buffered channels\<close>

text \<open>
  A Go buffered channel \<open>make(chan T, n)\<close>, seen by one sequential observer: the
  values buffered (oldest first) and the capacity. \<open>try_send\<close> is the statement
  \<open>select { case ch <- v: default: }\<close>: with no receiver waiting, the send case is
  ready exactly when the buffer has room, otherwise the \<open>default\<close> case runs and the
  value is dropped. \<open>recv\<close> is \<open><-ch\<close>: \<open>None\<close> stands for a receive that
  blocks.
\<close>

record 'a chan =
  chan_buf :: "'a list"
  chan_cap :: nat

definition make_chan :: "nat \<Rightarrow> 'a chan" where
  "make_chan n = \<lparr>chan_buf = [], chan_cap = n\<rparr>"

definition try_send :: "'a chan \<Rightarrow> 'a \<Rightarrow> 'a chan" where
  "try_send ch v =
     (if length (chan_buf ch) < chan_cap ch then ch\<lparr>chan_buf := chan_buf ch @ [v]\<rparr> else ch)"

definition recv :: "'a chan \<Rightarrow> ('a \<times> 'a chan) option" where
  "recv ch = (case chan_buf ch of [] \<Rightarrow> None | v # vs \<Rightarrow> Some (v, ch\<lparr>chan_buf := vs\<rparr>))"

subsection \<open>First version: press and release tracking\<close>

text \<open>
  \<open>keyStates map[uint16]bool\<close>: reading a key that is absent gives \<open>false\<close>, which
  \<open>pressed\<close> writes out.
\<close>

record InputDevice =
  Name :: string
  Path :: string
  File :: nat
  keyStates :: "uint16 \<rightharpoonup> bool"

definition pressed :: "InputDevice \<Rightarrow> uint16 \<Rightarrow> bool" where
  "pressed device keyCode = (case keyStates device keyCode of None \<Rightarrow> False | Some b \<Rightarrow> b)"

record InputManager =
  devices :: "InputDevice list"
  eventChan :: "KeyEvent chan"
  stopChan :: "bool chan"

definition NewInputManager :: InputManager where
  "NewInputManager = \<lparr>devices = [], eventChan = make_chan 10, stopChan = make_chan 1\<rparr>"

definition translateKeyCode :: "uint16 \<Rightarrow> KeyEvent" where
  "translateKeyCode linuxCode =
     \<lparr>Code =
        (if linuxCode = KEY_VOLUMEUP \<or> linuxCode = KEY_UP then KeyUp
         else if linuxCode = KEY_VOLUMEDOWN \<or> linuxCode = KEY_DOWN then KeyDown
         else if linuxCode = KEY_POWER \<or> linuxCode = KEY_ENTER then KeySelect
         else if linuxCode = KEY_ESC then KeyEscape
         else if linuxCode = KEY_Q then KeyQuit
         else if linuxCode \<in> {KEY_1, KEY_2, KEY_3, KEY_4, KEY_5, KEY_6, KEY_7, KEY_8, KEY_9}
           then KeyQuit + uint (linuxCode - KEY_1 + 1)
         else KeyUnknown),
      Type = KeyPress\<rparr>"

text \<open>
  \<open>handleKeyEvent\<close> mutates the device's map and may send on the manager's event
  channel; the model returns both. A \<open>switch\<close> with no \<open>default\<close> does nothing
  for any other value.
\<close>

definition handleKeyEvent ::
  "KeyEvent chan \<Rightarrow> InputDevice \<Rightarrow> uint16 \<Rightarrow> int32 \<Rightarrow> InputDevice \<times> KeyEvent chan" where
  "handleKeyEvent ch device keyCode val =
     (if val = 1 then (device\<lparr>keyStates := (keyStates device)(keyCode \<mapsto> True)\<rparr>, ch)
      else if val = 0 then
        (if pressed device keyCode then
           (let device' = device\<lparr>keyStates := (keyStates device)(keyCode \<mapsto> False)\<rparr>;
                keyEvent = translateKeyCode keyCode
            in if Code keyEvent \<noteq> KeyUnknown then (device', try_send ch keyEvent)
               else (device', ch))
         else (device, ch))
      else (device, ch))"

text \<open>
  One call of \<open>device.File.Read(buf)\<close>: an error, a read of fewer bytes than a
  record, or a whole record. \<open>listenDevice\<close> runs the reader's loop over the reads the
  device delivers; the end of the list is the stop signal.
\<close>

datatype dev_read = ReadError | ShortRead | Record inputEvent

fun listenDevice ::
  "KeyEvent chan \<Rightarrow> InputDevice \<Rightarrow> dev_read list \<Rightarrow> InputDevice \<times> KeyEvent chan" where
  "listenDevice ch device [] = (device, ch)"
| "listenDevice ch device (ReadError # rs) = (device, ch)"
| "listenDevice ch device (ShortRead # rs) = listenDevice ch device rs"
| "listenDevice ch device (Record event # rs) =
     (if ev_Type event = EV_KEY then
        (case handleKeyEvent ch device (ev_Code event) (ev_Value event) of
           (device', ch') \<Rightarrow> listenDevice ch' device' rs)
      else listenDevice ch device rs)"

subsection \<open>Second version: name patterns and the keyboard fallback reader\<close>

abbreviation byte_LF :: byte where "byte_LF \<equiv> 10"
abbreviation byte_CR :: byte where "byte_CR \<equiv> 13"
abbreviation byte_ESC :: byte where "byte_ESC \<equiv> 27"
abbreviation byte_0 :: byte where "byte_0 \<equiv> 48"
abbreviation byte_1 :: byte where "byte_1 \<equiv> 49"
abbreviation byte_9 :: byte where "byte_9 \<equiv> 57"
abbreviation byte_A :: byte where "byte_A \<equiv> 65"
abbreviation byte_B :: byte where "byte_B \<equiv> 66"
abbreviation byte_Q :: byte where "byte_Q \<equiv> 81"
abbreviation byte_bracket :: byte where "byte_bracket \<equiv> 91"
abbreviation byte_j :: byte where "byte_j \<equiv> 106"
abbreviation byte_k :: byte where "byte_k \<equiv> 107"
abbreviation byte_q :: byte where "byte_q \<equiv> 113"

definition translateKeyCode_np :: "uint16 \<Rightarrow> KeyEvent" where
  "translateKeyCode_np linuxCode =
     \<lparr>Code =
        (if linuxCode = KEY_VOLUMEUP \<or> linuxCode = KEY_UP then KeyUp
         else if linuxCode = KEY_VOLUMEDOWN \<or> linuxCode = KEY_DOWN then KeyDown
         else if linuxCode = KEY_POWER \<or> linuxCode = KEY_ENTER then KeySelect
         else if linuxCode = KEY_ESC then KeyEscape
         else if linuxCode = KEY_Q then KeyQuit
         else KeyUnknown),
      Type = KeyPress\<rparr>"

text \<open>
  The second version's device loop keeps no state: a read error or a short read is
  skipped, and a key record with value 1 is translated and pushed.
\<close>

fun listenDevice_np :: "KeyEvent chan \<Rightarrow> dev_read list \<Rightarrow> KeyEvent chan" where
  "listenDevice_np ch [] = ch"
| "listenDevice_np ch (ReadError # rs) = listenDevice_np ch rs"
| "listenDevice_np ch (ShortRead # rs) = listenDevice_np ch rs"
| "listenDevice_np ch (Record event # rs) =
     (if ev_Type event = EV_KEY \<and> ev_Value event = 1 then
        (let keyEvent = translateKeyCode_np (ev_Code event)
         in if Code keyEvent \<noteq> KeyUnknown then listenDevice_np (try_send ch keyEvent) rs
            else listenDevice_np ch rs)
      else listenDevice_np ch rs)"

text \<open>
  One call of \<open>reader.ReadByte()\<close> on standard input: a byte, or an error.
  \<open>decodeEscape\<close> is the body of \<open>case 27\<close>: it is given the reads that follow the
  escape byte and returns the key code with the number of reads it used. When the reads
  run out inside the sequence the reader is blocked in \<open>ReadByte\<close> and produces
  nothing: \<open>None\<close>.
\<close>

datatype kb_read = ReadByte byte | ReadFail

fun decodeEscape :: "kb_read list \<Rightarrow> (KeyCode \<times> nat) option" where
  "decodeEscape [] = None"
| "decodeEscape (ReadFail # rs) = Some (KeyEscape, 1)"
| "decodeEscape (ReadByte next # rs) =
     (if next = byte_bracket then
        (case rs of
           [] \<Rightarrow> None
         | ReadFail # rs' \<Rightarrow> Some (KeyEscape, 2)
         | ReadByte arrow # rs' \<Rightarrow>
             Some (if arrow = byte_A then KeyUp
                   else if arrow = byte_B then KeyDown
                   else KeyEscape, 2))
      else Some (KeyEscape, 1))"

text \<open>
  The \<open>switch char\<close> of \<open>listenKeyboard\<close> for a byte other than 27: the key code, or
  \<open>None\<close> for the \<open>continue\<close> of an ignored byte.
\<close>

definition decodeChar :: "byte \<Rightarrow> KeyCode option" where
  "decodeChar char =
     (if char = byte_LF \<or> char = byte_CR then Some KeySelect
      else if char = byte_j then Some KeyDown
      else if char = byte_k then Some KeyUp
      else if char = byte_q \<or> char = byte_Q then Some KeyQuit
      else if byte_1 \<le> char \<and> char \<le> byte_9 then Some (KeyQuit + uint (char - byte_0))
      else None)"

fun listenKeyboard :: "KeyEvent chan \<Rightarrow> kb_read list \<Rightarrow> KeyEvent chan" where
  "listenKeyboard ch [] = ch"
| "listenKeyboard ch (ReadFail # rs) = listenKeyboard ch rs"
| "listenKeyboard ch (ReadByte char # rs) =
     (if char = byte_ESC then
        (case decodeEscape rs of
           None \<Rightarrow> ch
         | Some (code, n) \<Rightarrow>
             listenKeyboard (try_send ch \<lparr>Code = code, Type = KeyPress\<rparr>) (drop n rs))
      else
        (case decodeChar char of
           None \<Rightarrow> listenKeyboard ch rs
         | Some code \<Rightarrow> listenKeyboard (try_send ch \<lparr>Code = code, Type = KeyPress\<rparr>) rs))"

subsection \<open>Device discovery by name pattern\<close>

text \<open>
  Strings are byte strings. \<open>ToLower\<close> is \<open>strings.ToLower\<close> on ASCII text (bytes
  outside \<open>A\<close>..\<open>Z\<close> are kept), \<open>Contains\<close> is \<open>strings.Contains\<close> and
  \<open>HasPrefix\<close> is \<open>strings.HasPrefix\<close>.
\<close>

definition lower_char :: "char \<Rightarrow> char" where
  "lower_char c =
     (if (65::nat) \<le> of_char c \<and> of_char c \<le> (90::nat) then char_of (of_char c + (32::nat)) else c)"

definition ToLower :: "string \<Rightarrow> string" where
  "ToLower s = map lower_char s"

fun HasPrefix :: "string \<Rightarrow> string \<Rightarrow> bool" where
  "HasPrefix s [] = True"
| "HasPrefix [] (p # ps) = False"
| "HasPrefix (c # cs) (p # ps) = (c = p \<and> HasPrefix cs ps)"

fun Contains :: "string \<Rightarrow> string \<Rightarrow> bool" where
  "Contains [] substr = (substr = [])"
| "Contains (c # cs) substr = (HasPrefix (c # cs) substr \<or> Contains cs substr)"

definition patterns :: "string list" where
  "patterns = [''gpio-keys'', ''power'', ''volume'', ''button'', ''pmic'', ''keyboard'']"

text \<open>
  \<open>hasRelevantKeys(file, name)\<close> never touches its \<open>file\<close> argument, which the
  model keeps as an argument all the same.
\<close>

definition hasRelevantKeys :: "nat \<Rightarrow> string \<Rightarrow> bool" where
  "hasRelevantKeys file name = list_ex (Contains (ToLower name)) patterns"

text \<open>
  \<open>getDeviceName\<close>: the reply of the name \<open>ioctl\<close> is \<open>None\<close> when the call
  fails, otherwise the 256-byte buffer. \<open>end\<close> is the index of the first zero byte, and
  stays 0 when the buffer holds none.
\<close>

fun first_nul :: "string \<Rightarrow> nat \<Rightarrow> nat" where
  "first_nul [] i = 0"
| "first_nul (b # bs) i = (if b = CHR 0x00 then i else first_nul bs (Suc i))"

definition getDeviceName :: "string option \<Rightarrow> string option" where
  "getDeviceName reply =
     (case reply of None \<Rightarrow> None | Some name \<Rightarrow> Some (take (first_nul name 0) name))"

record InputDevice_np =
  Name_np :: string
  Path_np :: string
  File_np :: nat

text \<open>
  What the system answers for one entry of \<open>/dev/input\<close>: its file name, the handle
  \<open>os.OpenFile\<close> returns (if it opens), the reply to the name query and the reply a
  capability-bitmask query would get. \<open>DiscoverDevices_np\<close> returns the devices it
  appended and the handles it closed, in order, or the error of \<open>os.ReadDir\<close>.
\<close>

record dir_entry =
  de_Name :: string
  de_open :: "nat option"
  de_name_reply :: "string option"
  de_evbits_reply :: "byte list option"

datatype error =
    ReadInputDirFailed
  | MenuCancelled
  | InvalidSelection string
  | PanicIndexOutOfRange

fun discover_np ::
  "dir_entry list \<Rightarrow> InputDevice_np list \<times> nat list \<Rightarrow> InputDevice_np list \<times> nat list" where
  "discover_np [] acc = acc"
| "discover_np (entry # entries) (devs, closed) =
     (if HasPrefix (de_Name entry) ''event'' then
        (case de_open entry of
           None \<Rightarrow> discover_np entries (devs, closed)
         | Some file \<Rightarrow>
             (case getDeviceName (de_name_reply entry) of
                None \<Rightarrow> discover_np entries (devs, closed @ [file])
              | Some name \<Rightarrow>
                  if hasRelevantKeys file name then
                    discover_np entries
                      (devs @ [\<lparr>Name_np = name, Path_np = ''/dev/input/'' @ de_Name entry,
                                File_np = file\<rparr>], closed)
                  else discover_np entries (devs, closed @ [file])))
      else discover_np entries (devs, closed))"

definition DiscoverDevices_np ::
  "dir_entry list option \<Rightarrow> InputDevice_np list \<Rightarrow> error + InputDevice_np list \<times> nat list" where
  "DiscoverDevices_np readdir devs =
     (case readdir of
        None \<Rightarrow> Inl ReadInputDirFailed
      | Some entries \<Rightarrow> Inr (discover_np entries (devs, [])))"

section \<open>Package menu\<close>

record BootEntry =
  Title :: string
  Version :: string
  Linux :: string
  Initrd :: string
  Devicetree :: string
  Options :: string
  FilePath :: string

record MenuItem =
  Entry :: BootEntry
  DisplayName :: string
  Description :: string

record Terminal =
  Width :: int
  Height :: int
  IsTTY :: bool

text \<open>
  \<open>InputManager\<close> is a pointer that may be \<open>nil\<close>: the model keeps whether it is
  set. The menu's title field is \<open>MenuTitle\<close>, since \<open>Title\<close> is the entry's.
\<close>

record BootMenu =
  Items :: "MenuItem list"
  SelectedIndex :: int
  Terminal :: Terminal
  MenuTitle :: string
  Timeout :: int
  HasInputManager :: bool

text \<open>
  \<open>m.Items[i].Entry\<close>: Go panics when the index is out of range, which is the error
  \<open>PanicIndexOutOfRange\<close> here.
\<close>

definition entry_at :: "MenuItem list \<Rightarrow> int \<Rightarrow> error + BootEntry" where
  "entry_at items i =
     (if 0 \<le> i \<and> i < int (length items) then Inr (Entry (items ! nat i))
      else Inl PanicIndexOutOfRange)"

subsection \<open>The numbered prompt\<close>

text \<open>
  \<open>fmt.Scanln(&input)\<close> with one string operand, on the bytes standard input holds:
  blanks before the token are skipped, a newline (or the end of input) before any token
  leaves \<open>input\<close> empty, and the token is the run of bytes up to the next white space.
  A carriage return right before a newline is skipped with the blanks.
\<close>

definition isSpace :: "char \<Rightarrow> bool" where
  "isSpace c = (c \<in> {CHR 0x09, CHR 0x0A, CHR 0x0B, CHR 0x0C, CHR 0x0D, CHR '' ''})"

fun Scanln :: "string \<Rightarrow> string" where
  "Scanln [] = []"
| "Scanln (c # cs) =
     (if c = CHR 0x0A then []
      else if isSpace c then Scanln cs
      else takeWhile (\<lambda>x. \<not> isSpace x) (c # cs))"

text \<open>
  \<open>strconv.Atoi\<close>: an optional sign, then one or more decimal digits and nothing
  else, with a value that fits a 64-bit \<open>int\<close>; \<open>None\<close> is the error.
\<close>

definition isDigit :: "char \<Rightarrow> bool" where
  "isDigit c = ((48::nat) \<le> of_char c \<and> of_char c \<le> (57::nat))"

fun digits_value :: "string \<Rightarrow> int \<Rightarrow> int" where
  "digits_value [] acc = acc"
| "digits_value (c # cs) acc = digits_value cs (acc * 10 + (of_char c - 48))"

definition parse_unsigned :: "string \<Rightarrow> int option" where
  "parse_unsigned s =
     (if s \<noteq> [] \<and> list_all isDigit s then Some (digits_value s 0) else None)"

definition in_int_range :: "int \<Rightarrow> bool" where
  "in_int_range n = (- (2 ^ 63) \<le> n \<and> n \<le> 2 ^ 63 - 1)"

definition Atoi :: "string \<Rightarrow> int option" where
  "Atoi s =
     (case (case s of
              [] \<Rightarrow> None
            | c # cs \<Rightarrow>
                if c = CHR ''+'' then parse_unsigned cs
                else if c = CHR ''-'' then map_option uminus (parse_unsigned cs)
                else parse_unsigned s) of
        None \<Rightarrow> None
      | Some n \<Rightarrow> if in_int_range n then Some n else None)"

text \<open>
  \<open>showSimpleMenu\<close>, from the value \<open>input\<close> holds after \<open>Scanln\<close>; what it
  prints is left out.
\<close>

definition showSimpleMenu :: "BootMenu \<Rightarrow> string \<Rightarrow> error + BootEntry" where
  "showSimpleMenu m input =
     (if input = [] then entry_at (Items m) 0
      else
        (case Atoi input of
           None \<Rightarrow> Inl (InvalidSelection input)
         | Some selection \<Rightarrow>
             if selection < 1 \<or> selection > int (length (Items m))
             then Inl (InvalidSelection input)
             else entry_at (Items m) (selection - 1)))"

subsection \<open>The interactive loop\<close>

text \<open>
  The loop's \<open>select\<close> waits on two channels. The model is driven by what happens
  around the loop: \<open>TimerElapsed\<close>, the configured number of seconds have passed since
  the menu started, and \<open>InputCh key\<close>, a reader goroutine delivers \<open>key\<close> on
  \<open>inputCh\<close>. The timer goroutine is started only when \<open>m.Timeout > 0\<close>
  (\<open>timer_armed\<close>); without it nothing is ever sent on \<open>timeoutCh\<close> and the
  \<open>select\<close> keeps waiting.

  \<open>case 27\<close> calls \<open>os.Stdin.Read(buf)\<close> on a fresh two-byte buffer: each element
  of the \<open>stdin\<close> list is what one such call delivers, and \<open>read_buf\<close> is the buffer
  afterwards (bytes not delivered stay 0). With no element left the call blocks.
\<close>

datatype select_event = TimerElapsed | InputCh byte

definition timer_armed :: "BootMenu \<Rightarrow> bool" where
  "timer_armed m = (Timeout m > 0)"

definition read_buf :: "byte list \<Rightarrow> byte \<times> byte" where
  "read_buf bs = (case bs of [] \<Rightarrow> (0, 0) | [a] \<Rightarrow> (a, 0) | a # b # rest \<Rightarrow> (a, b))"

definition move_up :: "BootMenu \<Rightarrow> BootMenu" where
  "move_up m = (if SelectedIndex m > 0 then m\<lparr>SelectedIndex := SelectedIndex m - 1\<rparr> else m)"

definition move_down :: "BootMenu \<Rightarrow> BootMenu" where
  "move_down m =
     (if SelectedIndex m < int (length (Items m)) - 1
      then m\<lparr>SelectedIndex := SelectedIndex m + 1\<rparr> else m)"

text \<open>
  One iteration of the \<open>for\<close> loop after \<open>drawMenu\<close>: the loop returns, goes on
  with a new state, or is blocked reading standard input.
\<close>

datatype iteration =
    Return BootMenu "error + BootEntry"
  | Continue BootMenu "byte list list"
  | BlockedInRead BootMenu

definition menu_iteration :: "BootMenu \<Rightarrow> select_event \<Rightarrow> byte list list \<Rightarrow> iteration" where
  "menu_iteration m ev stdin =
     (case ev of
        TimerElapsed \<Rightarrow>
          if timer_armed m then Return m (entry_at (Items m) (SelectedIndex m))
          else Continue m stdin
      | InputCh key \<Rightarrow>
          if key = byte_LF \<or> key = byte_CR then Return m (entry_at (Items m) (SelectedIndex m))
          else if key = byte_ESC then
            (case stdin of
               [] \<Rightarrow> BlockedInRead m
             | r # stdin' \<Rightarrow>
                 (case read_buf r of
                    (b0, b1) \<Rightarrow>
                      if b0 = byte_bracket then
                        (if b1 = byte_A then Continue (move_up m) stdin'
                         else if b1 = byte_B then Continue (move_down m) stdin'
                         else Continue m stdin')
                      else Continue m stdin'))
          else if key = byte_q \<or> key = byte_Q then Return m (Inl MenuCancelled)
          else if key = byte_j then Continue (move_down m) stdin
          else if key = byte_k then Continue (move_up m) stdin
          else if byte_1 \<le> key \<and> key \<le> byte_9 then
            (let index = uint (key - byte_1)
             in if index < int (length (Items m))
                then Return (m\<lparr>SelectedIndex := index\<rparr>) (entry_at (Items m) index)
                else Continue m stdin)
          else Continue m stdin)"

text \<open>
  The loop over the events that arrive. \<open>Waiting\<close>: the events are used up and the
  loop is in its \<open>select\<close>, with the reads standard input still holds.
  \<open>Blocked\<close>: the loop sits in the read of an escape sequence.
\<close>

datatype outcome =
    Returned BootMenu "error + BootEntry"
  | Waiting BootMenu "byte list list"
  | Blocked BootMenu

fun menu_loop :: "BootMenu \<Rightarrow> select_event list \<Rightarrow> byte list list \<Rightarrow> outcome" where
  "menu_loop m [] stdin = Waiting m stdin"
| "menu_loop m (ev # evs) stdin =
     (case menu_iteration m ev stdin of
        Return m' res \<Rightarrow> Returned m' res
      | Continue m' stdin' \<Rightarrow> menu_loop m' evs stdin'
      | BlockedInRead m' \<Rightarrow> Blocked m')"

definition showInteractiveMenu :: "BootMenu \<Rightarrow> select_event list \<Rightarrow> byte list list \<Rightarrow> outcome" where
  "showInteractiveMenu m evs stdin = menu_loop m evs stdin"

text \<open>
  The goroutine that forwards the input manager's events to \<open>inputCh\<close>: the byte it
  sends for an event, \<open>None\<close> when the \<open>switch\<close> has no case for the code.
\<close>

definition forward_event :: "KeyEvent \<Rightarrow> byte option" where
  "forward_event event =
     (if Code event = KeyUp then Some byte_k
      else if Code event = KeyDown then Some byte_j
      else if Code event = KeySelect then Some byte_CR
      else if Code event = KeyQuit \<or> Code event = KeyEscape then Some byte_q
      else None)"

text \<open>
  The bytes that goroutine sends for the events it takes from the input manager, in
  order (a send on \<open>inputCh\<close> blocks until the loop takes the byte, so none is
  lost). The goroutine is started only when the menu has an input manager.
\<close>

definition forwarder :: "BootMenu \<Rightarrow> KeyEvent list \<Rightarrow> select_event list" where
  "forwarder m events =
     (if HasInputManager m then map InputCh (List.map_filter forward_event events) else [])"

text \<open>
  \<open>Show\<close>: \<open>setup_ok\<close> tells whether \<open>setupTerminal\<close> (the \<open>stty\<close> command)
  succeeds, \<open>line\<close> is what standard input holds for the numbered prompt.
\<close>

definition Show ::
  "BootMenu \<Rightarrow> bool \<Rightarrow> string \<Rightarrow> select_event list \<Rightarrow> byte list list \<Rightarrow> outcome" where
  "Show m setup_ok line evs stdin =
     (if \<not> IsTTY (Terminal m) then Returned m (showSimpleMenu m (Scanln line))
      else if \<not> setup_ok then Returned m (showSimpleMenu m (Scanln line))
      else showInteractiveMenu m evs stdin)"

section \<open>Properties stated about the code\<close>

text \<open>
  \<open>press_recorded keyCode rs\<close>: the reads \<open>rs\<close> hold a key record for \<open>keyCode\<close>
  with value 1.
\<close>

definition press_recorded :: "uint16 \<Rightarrow> dev_read list \<Rightarrow> bool" where
  "press_recorded keyCode rs =
     list_ex (\<lambda>r. case r of
                  Record event \<Rightarrow>
                    ev_Type event = EV_KEY \<and> ev_Code event = keyCode \<and> ev_Value event = 1
                | _ \<Rightarrow> False) rs"

text \<open>
  The codes the menu knows: the five named keys and the digits 1 to 9, which are the
  codes \<open>KeyQuit + 1\<close> to \<open>KeyQuit + 9\<close>.
\<close>

definition known_code :: "KeyCode \<Rightarrow> bool" where
  "known_code c =
     (c = KeyUp \<or> c = KeyDown \<or> c = KeySelect \<or> c = KeyEscape \<or> c = KeyQuit \<or>
      (KeyQuit + 1 \<le> c \<and> c \<le> KeyQuit + 9))"

text \<open>
  What the goroutines do to the shared queue, one operation at a time: a hardware reader
  of the first version handles a key record, a hardware reader of the second version or
  the keyboard reader works through some reads, or the consumer takes an event
  (\<open>GetEvent\<close>; on an empty queue it blocks and the queue stays as it is).
\<close>

definition GetEvent :: "KeyEvent chan \<Rightarrow> (KeyEvent \<times> KeyEvent chan) option" where
  "GetEvent ch = recv ch"

datatype queue_op =
    HandleKeyEvent InputDevice uint16 int32
  | ListenDevice_np "dev_read list"
  | ListenKeyboard "kb_read list"
  | Consume

fun apply_op :: "KeyEvent chan \<Rightarrow> queue_op \<Rightarrow> KeyEvent chan" where
  "apply_op ch (HandleKeyEvent device keyCode val) = snd (handleKeyEvent ch device keyCode val)"
| "apply_op ch (ListenDevice_np rs) = listenDevice_np ch rs"
| "apply_op ch (ListenKeyboard rs) = listenKeyboard ch rs"
| "apply_op ch Consume = (case GetEvent ch of None \<Rightarrow> ch | Some (e, ch') \<Rightarrow> ch')"

text \<open>The selection index is a valid index of the item list.\<close>

definition in_range :: "BootMenu \<Rightarrow> bool" where
  "in_range m = (0 \<le> SelectedIndex m \<and> SelectedIndex m < int (length (Items m)))"

definition outcome_menu :: "outcome \<Rightarrow> BootMenu" where
  "outcome_menu out = (case out of Returned m res \<Rightarrow> m | Waiting m stdin \<Rightarrow> m | Blocked m \<Rightarrow> m)"

text \<open>
  The ways an Up or a Down reaches the loop: the arrow keys, as the byte 27 on
  \<open>inputCh\<close> with \<open>[A\<close> or \<open>[B\<close> then read from standard input, and the bytes
  \<open>k\<close> and \<open>j\<close> (typed, or sent by the forwarding goroutine for the input
  manager's Up and Down).
\<close>

datatype nav = ArrowUp | ArrowDown | ViUp | ViDown

fun nav_key :: "nav \<Rightarrow> byte" where
  "nav_key ArrowUp = byte_ESC"
| "nav_key ArrowDown = byte_ESC"
| "nav_key ViUp = byte_k"
| "nav_key ViDown = byte_j"

fun nav_read :: "nav \<Rightarrow> byte list list" where
  "nav_read ArrowUp = [[byte_bracket, byte_A]]"
| "nav_read ArrowDown = [[byte_bracket, byte_B]]"
| "nav_read ViUp = []"
| "nav_read ViDown = []"

fun nav_move :: "nav \<Rightarrow> BootMenu \<Rightarrow> BootMenu" where
  "nav_move ArrowUp m = move_up m"
| "nav_move ArrowDown m = move_down m"
| "nav_move ViUp m = move_up m"
| "nav_move ViDown m = move_down m"

text \<open>The byte of the digit key \<open>n\<close>.\<close>

definition digit_key :: "nat \<Rightarrow> byte" where
  "digit_key n = byte_0 + of_nat n"

text \<open>
  A button pressed and released: the two key records the device delivers. \<open>cycles\<close>
  are the reads for a list of buttons pressed and released one after the other, and
  \<open>presses\<close> the reads of the presses alone.
\<close>

definition press_release :: "uint16 \<Rightarrow> dev_read list" where
  "press_release keyCode =
     [Record \<lparr>ev_Type = EV_KEY, ev_Code = keyCode, ev_Value = 1\<rparr>,
      Record \<lparr>ev_Type = EV_KEY, ev_Code = keyCode, ev_Value = 0\<rparr>]"

definition cycles :: "uint16 list \<Rightarrow> dev_read list" where
  "cycles keyCodes = concat (map press_release keyCodes)"

definition presses :: "uint16 list \<Rightarrow> dev_read list" where
  "presses keyCodes =
     map (\<lambda>keyCode. Record \<lparr>ev_Type = EV_KEY, ev_Code = keyCode, ev_Value = 1\<rparr>) keyCodes"

text \<open>
  The keys the two translations know, and the bytes the keyboard reader turns into an
  event by themselves, with that event.
\<close>

definition translates :: "uint16 \<Rightarrow> bool" where
  "translates keyCode = (Code (translateKeyCode keyCode) \<noteq> KeyUnknown)"

definition translates_np :: "uint16 \<Rightarrow> bool" where
  "translates_np keyCode = (Code (translateKeyCode_np keyCode) \<noteq> KeyUnknown)"

definition plain_key :: "byte \<Rightarrow> bool" where
  "plain_key char = (char \<noteq> byte_ESC \<and> decodeChar char \<noteq> None)"

definition keyboard_event :: "byte \<Rightarrow> KeyEvent" where
  "keyboard_event char =
     \<lparr>Code = (case decodeChar char of None \<Rightarrow> KeyUnknown | Some code \<Rightarrow> code),
      Type = KeyPress\<rparr>"

text \<open>
  What discovery does with one directory entry, said entry by entry: the device it
  accepts, if any, and the handle it closes, if any.
\<close>

definition accepted_device :: "dir_entry \<Rightarrow> InputDevice_np option" where
  "accepted_device entry =
     (if HasPrefix (de_Name entry) ''event'' then
        (case de_open entry of
           None \<Rightarrow> None
         | Some file \<Rightarrow>
             (case getDeviceName (de_name_reply entry) of
                None \<Rightarrow> None
              | Some name \<Rightarrow>
                  if hasRelevantKeys file name
                  then Some \<lparr>Name_np = name, Path_np = ''/dev/input/'' @ de_Name entry,
                              File_np = file\<rparr>
                  else None))
      else None)"

definition closed_handle :: "dir_entry \<Rightarrow> nat option" where
  "closed_handle entry =
     (if HasPrefix (de_Name entry) ''event'' then
        (case de_open entry of
           None \<Rightarrow> None
         | Some file \<Rightarrow>
             (case getDeviceName (de_name_reply entry) of
                None \<Rightarrow> Some file
              | Some name \<Rightarrow> if hasRelevantKeys file name then None else Some file))
      else None)"

text \<open>Every event in the queue has a known code.\<close>

definition all_known :: "KeyEvent chan \<Rightarrow> bool" where
  "all_known ch = list_all (\<lambda>e. known_code (Code e)) (chan_buf ch)"

text \<open>A menu of five entries, for evaluating the functions on concrete input.\<close>

definition sample_item :: "string \<Rightarrow> MenuItem" where
  "sample_item t =
     \<lparr>Entry = \<lparr>Title = t, Version = ''6.1'', Linux = ''/vmlinuz'', Initrd = [],
                Devicetree = [], Options = [], FilePath = ''/boot/'' @ t @ ''.conf''\<rparr>,
      DisplayName = t, Description = ''Version: 6.1 | Kernel: /vmlinuz''\<rparr>"

definition sample_menu :: "int \<Rightarrow> int \<Rightarrow> bool \<Rightarrow> BootMenu" where
  "sample_menu index seconds tty =
     \<lparr>Items = map sample_item [''a'', ''b'', ''c'', ''d'', ''e''], SelectedIndex = index,
      Terminal = \<lparr>Width = 80, Height = 24, IsTTY = tty\<rparr>, MenuTitle = ''kxboot'',
      Timeout = seconds, HasInputManager = True\<rparr>"

section \<open>The aggregator queue\<close>

lemma try_send_cap [simp]: "chan_cap (try_send ch v) = chan_cap ch"
  by (simp add: try_send_def)

lemma try_send_full: "chan_cap ch \<le> length (chan_buf ch) \<Longrightarrow> try_send ch v = ch"
  by (simp add: try_send_def)

lemma foldl_try_send_cap [simp]: "chan_cap (foldl try_send ch vs) = chan_cap ch"
  by (induction vs arbitrary: ch) simp_all

lemma foldl_try_send_buf:
  "length (chan_buf ch) \<le> chan_cap ch \<Longrightarrow>
   chan_buf (foldl try_send ch vs) =
     chan_buf ch @ take (chan_cap ch - length (chan_buf ch)) vs"
proof (induction vs arbitrary: ch)
  case Nil
  then show ?case by simp
next
  case (Cons v vs)
  show ?case
  proof (cases "length (chan_buf ch) < chan_cap ch")
    case True
    then have "length (chan_buf (try_send ch v)) \<le> chan_cap (try_send ch v)"
      by (simp add: try_send_def)
    from Cons.IH [OF this] True show ?thesis
      by (simp add: try_send_def take_Cons' Suc_diff_Suc)
  next
    case False
    with Cons.prems have full: "chan_cap ch \<le> length (chan_buf ch)" by simp
    from Cons.IH [OF Cons.prems] full show ?thesis
      by (simp add: try_send_full)
  qed
qed

lemma handleKeyEvent_full:
  "chan_cap ch \<le> length (chan_buf ch) \<Longrightarrow> snd (handleKeyEvent ch device keyCode val) = ch"
  by (simp add: handleKeyEvent_def Let_def try_send_full)

lemma listenDevice_full:
  "chan_cap ch \<le> length (chan_buf ch) \<Longrightarrow> snd (listenDevice ch device rs) = ch"
proof (induction ch device rs rule: listenDevice.induct)
  case (4 ch device event rs)
  show ?case
  proof (cases "ev_Type event = EV_KEY")
    case True
    obtain d1 c1 where h: "handleKeyEvent ch device (ev_Code event) (ev_Value event) = (d1, c1)"
      by (cases "handleKeyEvent ch device (ev_Code event) (ev_Value event)")
    from handleKeyEvent_full [OF "4.prems", of device "ev_Code event" "ev_Value event"] h
    have c1: "c1 = ch" by simp
    from "4.IH"(1) [OF True h [symmetric]] "4.prems" c1 True h show ?thesis by simp
  next
    case False
    with "4.IH"(2) "4.prems" show ?thesis by simp
  qed
qed simp_all

lemma listenDevice_np_full:
  "chan_cap ch \<le> length (chan_buf ch) \<Longrightarrow> listenDevice_np ch rs = ch"
  by (induction ch rs rule: listenDevice_np.induct) (simp_all add: Let_def try_send_full)

lemma listenKeyboard_full:
  "chan_cap ch \<le> length (chan_buf ch) \<Longrightarrow> listenKeyboard ch rs = ch"
  by (induction ch rs rule: listenKeyboard.induct)
     (simp_all add: try_send_full split: option.splits)

lemma handleKeyEvent_release_pushes:
  "pressed device keyCode \<Longrightarrow> translates keyCode \<Longrightarrow>
   handleKeyEvent ch device keyCode 0 =
     (device\<lparr>keyStates := (keyStates device)(keyCode \<mapsto> False)\<rparr>,
      try_send ch (translateKeyCode keyCode))"
  by (simp add: handleKeyEvent_def Let_def translates_def)

lemma listenDevice_press_release:
  "translates keyCode \<Longrightarrow>
   listenDevice ch device (press_release keyCode @ rs) =
     listenDevice (try_send ch (translateKeyCode keyCode))
       (device\<lparr>keyStates := (keyStates device)(keyCode \<mapsto> False)\<rparr>) rs"
  by (simp add: press_release_def handleKeyEvent_def Let_def translates_def pressed_def)

lemma listenDevice_cycles:
  "list_all translates keyCodes \<Longrightarrow>
   snd (listenDevice ch device (cycles keyCodes)) = foldl try_send ch (map translateKeyCode keyCodes)"
proof (induction keyCodes arbitrary: ch device)
  case Nil
  then show ?case by (simp add: cycles_def)
next
  case (Cons k ks)
  then have k: "translates k" and ks: "list_all translates ks" by simp_all
  have "cycles (k # ks) = press_release k @ cycles ks" by (simp add: cycles_def)
  with listenDevice_press_release [OF k] Cons.IH [OF ks] show ?case by simp
qed

lemma listenDevice_np_presses:
  "list_all translates_np keyCodes \<Longrightarrow>
   listenDevice_np ch (presses keyCodes) = foldl try_send ch (map translateKeyCode_np keyCodes)"
  by (induction keyCodes arbitrary: ch) (simp_all add: presses_def translates_np_def Let_def)

lemma listenKeyboard_plain:
  "list_all plain_key chars \<Longrightarrow>
   listenKeyboard ch (map ReadByte chars) = foldl try_send ch (map keyboard_event chars)"
  by (induction chars arbitrary: ch) (auto simp: plain_key_def keyboard_event_def)

lemma new_queue_retains:
  "chan_buf (foldl try_send (eventChan NewInputManager) es) = take 10 es"
  using foldl_try_send_buf [of "eventChan NewInputManager" es]
  by (simp add: NewInputManager_def make_chan_def)

text \<open>
  C7. The event queue of a new input manager has capacity 10, and a push (the
  \<open>select\<close> with a \<open>default\<close> case) always completes. On a full queue the push
  returns the queue unchanged, and so does every producer: the key handler, both device
  readers and the keyboard reader leave a full queue as it is, whatever they read. With
  room in the queue, the release of a pressed, known key appends its event. With nobody
  receiving, buttons pressed and released one after the other on a new queue leave the
  events of the first 10 in it, so \<open>10 + k\<close> of them retain exactly 10; the same
  holds for the presses read by the second version's device reader and for the bytes
  read by the keyboard reader.
\<close>

theorem eventChan_drop_on_full:
  "chan_cap (eventChan NewInputManager) = 10 \<and>
   chan_buf (eventChan NewInputManager) = [] \<and>
   (length (chan_buf ch) = chan_cap ch \<longrightarrow>
      try_send ch e = ch \<and>
      snd (handleKeyEvent ch device keyCode val) = ch \<and>
      snd (listenDevice ch device rs) = ch \<and>
      listenDevice_np ch rs = ch \<and>
      listenKeyboard ch kbs = ch) \<and>
   (length (chan_buf ch) < chan_cap ch \<and> pressed device keyCode \<and> translates keyCode \<longrightarrow>
      chan_buf (snd (handleKeyEvent ch device keyCode 0)) =
        chan_buf ch @ [translateKeyCode keyCode]) \<and>
   chan_buf (foldl try_send (eventChan NewInputManager) es) = take 10 es \<and>
   (length es = 10 + k \<longrightarrow>
      length (chan_buf (foldl try_send (eventChan NewInputManager) es)) = 10) \<and>
   (list_all translates keyCodes \<longrightarrow>
      chan_buf (snd (listenDevice (eventChan NewInputManager) device (cycles keyCodes))) =
        take 10 (map translateKeyCode keyCodes)) \<and>
   (list_all translates keyCodes \<and> length keyCodes = 10 + k \<longrightarrow>
      length (chan_buf (snd (listenDevice (eventChan NewInputManager) device (cycles keyCodes)))) =
        10) \<and>
   (list_all translates_np keyCodes \<longrightarrow>
      chan_buf (listenDevice_np (eventChan NewInputManager) (presses keyCodes)) =
        take 10 (map translateKeyCode_np keyCodes)) \<and>
   (list_all plain_key chars \<longrightarrow>
      chan_buf (listenKeyboard (eventChan NewInputManager) (map ReadByte chars)) =
        take 10 (map keyboard_event chars))"
proof -
  have new: "chan_cap (eventChan NewInputManager) = 10"
    "chan_buf (eventChan NewInputManager) = []"
    by (simp_all add: NewInputManager_def make_chan_def)
  have full: "try_send ch e = ch \<and>
      snd (handleKeyEvent ch device keyCode val) = ch \<and>
      snd (listenDevice ch device rs) = ch \<and>
      listenDevice_np ch rs = ch \<and>
      listenKeyboard ch kbs = ch"
    if "length (chan_buf ch) = chan_cap ch"
    using that
    by (simp add: try_send_full handleKeyEvent_full listenDevice_full listenDevice_np_full
        listenKeyboard_full)
  have room: "chan_buf (snd (handleKeyEvent ch device keyCode 0)) =
        chan_buf ch @ [translateKeyCode keyCode]"
    if "length (chan_buf ch) < chan_cap ch \<and> pressed device keyCode \<and> translates keyCode"
    using that by (simp add: handleKeyEvent_release_pushes try_send_def)
  have hw: "chan_buf (snd (listenDevice (eventChan NewInputManager) device (cycles keyCodes))) =
        take 10 (map translateKeyCode keyCodes)"
    if "list_all translates keyCodes"
    by (simp add: listenDevice_cycles [OF that] new_queue_retains)
  have hw_len: "length (chan_buf (snd (listenDevice (eventChan NewInputManager) device
        (cycles keyCodes)))) = 10"
    if "list_all translates keyCodes \<and> length keyCodes = 10 + k"
    using that hw by simp
  have np: "chan_buf (listenDevice_np (eventChan NewInputManager) (presses keyCodes)) =
        take 10 (map translateKeyCode_np keyCodes)"
    if "list_all translates_np keyCodes"
    by (simp add: listenDevice_np_presses [OF that] new_queue_retains)
  have kb: "chan_buf (listenKeyboard (eventChan NewInputManager) (map ReadByte chars)) =
        take 10 (map keyboard_event chars)"
    if "list_all plain_key chars"
    by (simp add: listenKeyboard_plain [OF that] new_queue_retains)
  have len: "length (chan_buf (foldl try_send (eventChan NewInputManager) es)) = 10"
    if "length es = 10 + k"
    using that by (simp add: new_queue_retains)
  from new full room hw hw_len np kb len new_queue_retains [of es] show ?thesis
    by blast
qed


theorem eventChan_drop_on_full_witness:
  "(let dev = \<lparr>Name = ''gpio-keys'', Path = ''/dev/input/event0'', File = 3,
                 keyStates = Map.empty\<rparr>;
        held = dev\<lparr>keyStates := [KEY_VOLUMEUP \<mapsto> True]\<rparr>;
        up = \<lparr>Code = KeyUp, Type = KeyPress\<rparr>;
        down = \<lparr>Code = KeyDown, Type = KeyPress\<rparr>;
        full = \<lparr>chan_buf = replicate 10 down, chan_cap = 10\<rparr>;
        keys = [KEY_VOLUMEUP, KEY_VOLUMEDOWN, KEY_VOLUMEUP, KEY_VOLUMEDOWN, KEY_VOLUMEUP,
                KEY_VOLUMEDOWN, KEY_VOLUMEUP, KEY_VOLUMEDOWN, KEY_VOLUMEUP, KEY_VOLUMEDOWN,
                KEY_POWER, KEY_POWER, KEY_POWER]
    in length keys = 10 + 3 \<and> list_all translates keys \<and>
       chan_buf (snd (listenDevice (eventChan NewInputManager) dev (cycles keys))) =
         [up, down, up, down, up, down, up, down, up, down] \<and>
       chan_buf (listenDevice_np (eventChan NewInputManager) (presses keys)) =
         [up, down, up, down, up, down, up, down, up, down] \<and>
       pressed held KEY_VOLUMEUP \<and>
       snd (handleKeyEvent full held KEY_VOLUMEUP 0) = full \<and>
       chan_buf (snd (handleKeyEvent (eventChan NewInputManager) held KEY_VOLUMEUP 0)) = [up] \<and>
       chan_buf (listenKeyboard (eventChan NewInputManager)
         (map ReadByte [byte_j, byte_j, byte_j, byte_j, byte_j, byte_j, byte_j, byte_j, byte_j,
                        byte_j, byte_k, byte_k])) =
         [down, down, down, down, down, down, down, down, down, down] \<and>
       length (chan_buf (foldl try_send (eventChan NewInputManager) (replicate 13 up))) = 10)"
  using eventChan_drop_on_full
    [of "\<lparr>chan_buf = replicate 10 \<lparr>Code = KeyDown, Type = KeyPress\<rparr>, chan_cap = 10\<rparr>"
        "\<lparr>Code = KeyUp, Type = KeyPress\<rparr>"
        "\<lparr>Name = ''gpio-keys'', Path = ''/dev/input/event0'', File = 3,
          keyStates = [KEY_VOLUMEUP \<mapsto> True]\<rparr>"
        KEY_VOLUMEUP 0 "[]" "[]"
        "replicate 13 \<lparr>Code = KeyUp, Type = KeyPress\<rparr>" 3 "[]" "[]"]
    eventChan_drop_on_full
    [of "eventChan NewInputManager"
        "\<lparr>Code = KeyUp, Type = KeyPress\<rparr>"
        "\<lparr>Name = ''gpio-keys'', Path = ''/dev/input/event0'', File = 3,
          keyStates = [KEY_VOLUMEUP \<mapsto> True]\<rparr>"
        KEY_VOLUMEUP 0 "[]" "[]" "[]" 0 "[]" "[]"]
    eventChan_drop_on_full
    [of "eventChan NewInputManager"
        "\<lparr>Code = KeyUp, Type = KeyPress\<rparr>"
        "\<lparr>Name = ''gpio-keys'', Path = ''/dev/input/event0'', File = 3,
          keyStates = Map.empty\<rparr>"
        KEY_VOLUMEUP 0 "[]" "[]" "[]" 3
        "[KEY_VOLUMEUP, KEY_VOLUMEDOWN, KEY_VOLUMEUP, KEY_VOLUMEDOWN, KEY_VOLUMEUP,
          KEY_VOLUMEDOWN, KEY_VOLUMEUP, KEY_VOLUMEDOWN, KEY_VOLUMEUP, KEY_VOLUMEDOWN,
          KEY_POWER, KEY_POWER, KEY_POWER]"
        "[byte_j, byte_j, byte_j, byte_j, byte_j, byte_j, byte_j, byte_j, byte_j,
          byte_j, byte_k, byte_k]"]
  by (simp add: Let_def translates_def translates_np_def translateKeyCode_def
      translateKeyCode_np_def plain_key_def keyboard_event_def decodeChar_def pressed_def
      NewInputManager_def make_chan_def KeyCode_defs)

section \<open>The hardware reader: press and release\<close>

lemma handleKeyEvent_cases:
  "handleKeyEvent ch device keyCode val = (device', ch') \<Longrightarrow>
     ch' = ch \<or> (ch' = try_send ch (translateKeyCode keyCode) \<and> val = 0 \<and> pressed device keyCode
        \<and> Code (translateKeyCode keyCode) \<noteq> KeyUnknown)"
  by (auto simp: handleKeyEvent_def Let_def split: if_splits)

lemma try_send_buf_cases:
  "chan_buf (try_send ch v) = chan_buf ch \<or> chan_buf (try_send ch v) = chan_buf ch @ [v]"
  by (simp add: try_send_def)

lemma handleKeyEvent_pressed_other:
  "handleKeyEvent ch device keyCode val = (device', ch') \<Longrightarrow>
   \<not> pressed device k \<Longrightarrow> \<not> (keyCode = k \<and> val = 1) \<Longrightarrow> \<not> pressed device' k"
  by (auto simp: handleKeyEvent_def Let_def pressed_def split: if_splits)

lemma listenDevice_not_pressed:
  "listenDevice ch device rs = (device', ch') \<Longrightarrow> \<not> pressed device k \<Longrightarrow>
   \<not> press_recorded k rs \<Longrightarrow> \<not> pressed device' k"
proof (induction ch device rs rule: listenDevice.induct)
  case (4 ch device event rs)
  show ?case
  proof (cases "ev_Type event = EV_KEY")
    case True
    obtain d1 c1 where h: "handleKeyEvent ch device (ev_Code event) (ev_Value event) = (d1, c1)"
      by (cases "handleKeyEvent ch device (ev_Code event) (ev_Value event)")
    from "4.prems"(3) True have np: "\<not> (ev_Code event = k \<and> ev_Value event = 1)"
      and rest: "\<not> press_recorded k rs"
      by (auto simp: press_recorded_def)
    from handleKeyEvent_pressed_other [OF h "4.prems"(2) np] have "\<not> pressed d1 k" .
    moreover from "4.prems"(1) True h have "listenDevice c1 d1 rs = (device', ch')" by simp
    ultimately show ?thesis
      using "4.IH"(1) [OF True h [symmetric]] rest by blast
  next
    case False
    with "4.prems" have "listenDevice ch device rs = (device', ch')"
      and "\<not> press_recorded k rs" by (auto simp: press_recorded_def)
    with "4.IH"(2) [OF False] "4.prems"(2) show ?thesis by blast
  qed
qed (auto simp: press_recorded_def)

text \<open>
  C2. In the version that tracks press and release, one key record changes the queue by
  at most one event, and it adds one only when the value is 0 and the device's map has
  the code pressed. A release of a code that is not pressed changes neither the queue
  nor the map; a record with value 2 changes neither, whatever the state. For a device
  that starts with an empty map, a code for which the reads so far hold no value-1
  record is not pressed, so its release enqueues nothing.
\<close>

theorem handleKeyEvent_release_gated:
  "(handleKeyEvent ch device keyCode val = (device', ch') \<longrightarrow>
      (chan_buf ch' = chan_buf ch \<or>
         (\<exists>e. chan_buf ch' = chan_buf ch @ [e]) \<and> val = 0 \<and> pressed device keyCode) \<and>
      (val = 0 \<and> \<not> pressed device keyCode \<longrightarrow> ch' = ch \<and> device' = device) \<and>
      (val = 2 \<longrightarrow> ch' = ch \<and> device' = device)) \<and>
   (listenDevice ch0 (device0\<lparr>keyStates := Map.empty\<rparr>) rs = (device1, ch1) \<and>
    \<not> press_recorded keyCode rs \<longrightarrow>
      handleKeyEvent ch1 device1 keyCode 0 = (device1, ch1))"
proof -
  have step: "(chan_buf ch' = chan_buf ch \<or>
         (\<exists>e. chan_buf ch' = chan_buf ch @ [e]) \<and> val = 0 \<and> pressed device keyCode) \<and>
      (val = 0 \<and> \<not> pressed device keyCode \<longrightarrow> ch' = ch \<and> device' = device) \<and>
      (val = 2 \<longrightarrow> ch' = ch \<and> device' = device)"
    if h: "handleKeyEvent ch device keyCode val = (device', ch')"
  proof -
    from handleKeyEvent_cases [OF h] try_send_buf_cases [of ch "translateKeyCode keyCode"]
    have "chan_buf ch' = chan_buf ch \<or>
         (\<exists>e. chan_buf ch' = chan_buf ch @ [e]) \<and> val = 0 \<and> pressed device keyCode"
      by auto
    moreover have "val = 0 \<and> \<not> pressed device keyCode \<longrightarrow> ch' = ch \<and> device' = device"
      using h by (auto simp: handleKeyEvent_def)
    moreover have "val = 2 \<longrightarrow> ch' = ch \<and> device' = device"
      using h by (auto simp: handleKeyEvent_def)
    ultimately show ?thesis by blast
  qed
  have trace: "handleKeyEvent ch1 device1 keyCode 0 = (device1, ch1)"
    if a: "listenDevice ch0 (device0\<lparr>keyStates := Map.empty\<rparr>) rs = (device1, ch1)"
      and b: "\<not> press_recorded keyCode rs"
  proof -
    have "\<not> pressed (device0\<lparr>keyStates := Map.empty\<rparr>) keyCode"
      by (simp add: pressed_def)
    from listenDevice_not_pressed [OF a this b]
    show ?thesis by (simp add: handleKeyEvent_def)
  qed
  from step trace show ?thesis by blast
qed


theorem handleKeyEvent_release_gated_witness:
  "(let dev = \<lparr>Name = ''gpio-keys'', Path = ''/dev/input/event0'', File = 3,
                 keyStates = Map.empty\<rparr>;
        q = eventChan NewInputManager;
        down = \<lparr>ev_Type = EV_KEY, ev_Code = KEY_VOLUMEDOWN, ev_Value = 1\<rparr>;
        held = dev\<lparr>keyStates := [KEY_VOLUMEUP \<mapsto> True]\<rparr>
    in listenDevice q dev [Record down] = (dev\<lparr>keyStates := [KEY_VOLUMEDOWN \<mapsto> True]\<rparr>, q) \<and>
       \<not> press_recorded KEY_VOLUMEUP [Record down] \<and>
       handleKeyEvent q (dev\<lparr>keyStates := [KEY_VOLUMEDOWN \<mapsto> True]\<rparr>) KEY_VOLUMEUP 0 =
         (dev\<lparr>keyStates := [KEY_VOLUMEDOWN \<mapsto> True]\<rparr>, q) \<and>
       handleKeyEvent q held KEY_VOLUMEUP 2 = (held, q) \<and>
       pressed held KEY_VOLUMEUP \<and>
       chan_buf (snd (handleKeyEvent q held KEY_VOLUMEUP 0)) = [\<lparr>Code = KeyUp, Type = KeyPress\<rparr>])"
  using handleKeyEvent_release_gated
    [of "eventChan NewInputManager"
        "\<lparr>Name = ''gpio-keys'', Path = ''/dev/input/event0'', File = 3,
          keyStates = [KEY_VOLUMEUP \<mapsto> True]\<rparr>"
        KEY_VOLUMEUP 0
        "\<lparr>Name = ''gpio-keys'', Path = ''/dev/input/event0'', File = 3,
          keyStates = [KEY_VOLUMEUP \<mapsto> False]\<rparr>"
        "\<lparr>chan_buf = [\<lparr>Code = KeyUp, Type = KeyPress\<rparr>], chan_cap = 10\<rparr>"
        "eventChan NewInputManager"
        "\<lparr>Name = ''gpio-keys'', Path = ''/dev/input/event0'', File = 3,
          keyStates = Map.empty\<rparr>"
        "[Record \<lparr>ev_Type = EV_KEY, ev_Code = KEY_VOLUMEDOWN, ev_Value = 1\<rparr>]"
        "\<lparr>Name = ''gpio-keys'', Path = ''/dev/input/event0'', File = 3,
          keyStates = [KEY_VOLUMEDOWN \<mapsto> True]\<rparr>"
        "eventChan NewInputManager"]
  by (simp add: Let_def handleKeyEvent_def pressed_def press_recorded_def translateKeyCode_def
      try_send_def NewInputManager_def make_chan_def KeyCode_defs)

section \<open>Only known codes reach the queue\<close>

lemma translateKeyCode_known:
  "Code (translateKeyCode k) \<noteq> KeyUnknown \<Longrightarrow> known_code (Code (translateKeyCode k))"
  by (auto simp: translateKeyCode_def known_code_def KeyCode_defs split: if_splits)

lemma translateKeyCode_np_known:
  "Code (translateKeyCode_np k) \<noteq> KeyUnknown \<Longrightarrow> known_code (Code (translateKeyCode_np k))"
  by (auto simp: translateKeyCode_np_def known_code_def KeyCode_defs split: if_splits)

lemma digit_byte_value:
  "byte_1 \<le> c \<Longrightarrow> c \<le> byte_9 \<Longrightarrow> 1 \<le> uint (c - byte_0) \<and> uint (c - byte_0) \<le> 9"
  by (simp add: word_le_def uint_word_ariths) 

lemma known_not_unknown: "known_code c \<Longrightarrow> c \<noteq> KeyUnknown"
  by (auto simp: known_code_def KeyCode_defs)

lemma try_send_known:
  "all_known ch \<Longrightarrow> known_code (Code e) \<Longrightarrow> all_known (try_send ch e)"
  by (simp add: all_known_def try_send_def)

lemma handleKeyEvent_known:
  "all_known ch \<Longrightarrow> all_known (snd (handleKeyEvent ch device keyCode val))"
  by (auto simp: handleKeyEvent_def Let_def intro!: try_send_known translateKeyCode_known)

lemma listenDevice_np_known: "all_known ch \<Longrightarrow> all_known (listenDevice_np ch rs)"
  by (induction ch rs rule: listenDevice_np.induct)
     (auto simp: Let_def intro!: try_send_known translateKeyCode_np_known)

lemma decodeEscape_known: "decodeEscape rs = Some (code, n) \<Longrightarrow> known_code code"
  by (induction rs rule: decodeEscape.induct)
     (auto simp: known_code_def split: if_splits list.splits kb_read.splits)

lemma decodeChar_known: "decodeChar c = Some code \<Longrightarrow> known_code code"
  using digit_byte_value [of c]
  by (auto simp: decodeChar_def known_code_def split: if_splits)

lemma listenKeyboard_known: "all_known ch \<Longrightarrow> all_known (listenKeyboard ch rs)"
proof (induction ch rs rule: listenKeyboard.induct)
  case (3 ch char rs)
  show ?case
  proof (cases "char = byte_ESC")
    case True
    show ?thesis
    proof (cases "decodeEscape rs")
      case None
      with True "3.prems" show ?thesis by simp
    next
      case (Some a)
      obtain code n where a: "a = (code, n)" by (cases a)
      from Some a have "known_code code" using decodeEscape_known by blast
      with "3.prems" have "all_known (try_send ch \<lparr>Code = code, Type = KeyPress\<rparr>)"
        by (simp add: try_send_known)
      from "3.IH"(1) [OF True Some a [symmetric] this] True Some a show ?thesis by simp
    qed
  next
    case False
    show ?thesis
    proof (cases "decodeChar char")
      case None
      with False "3.IH"(2) "3.prems" show ?thesis by simp
    next
      case (Some code)
      then have "known_code code" by (rule decodeChar_known)
      with "3.prems" have "all_known (try_send ch \<lparr>Code = code, Type = KeyPress\<rparr>)"
        by (simp add: try_send_known)
      from "3.IH"(3) [OF False Some this] False Some show ?thesis by simp
    qed
  qed
qed simp_all

lemma recv_known: "all_known ch \<Longrightarrow> recv ch = Some (e, ch') \<Longrightarrow> known_code (Code e) \<and> all_known ch'"
  by (auto simp: recv_def all_known_def split: list.splits)

lemma apply_op_known: "all_known ch \<Longrightarrow> all_known (apply_op ch op)"
  by (cases op)
     (auto simp: handleKeyEvent_known listenDevice_np_known listenKeyboard_known GetEvent_def
        split: option.splits dest: recv_known)

lemma foldl_apply_op_known: "all_known ch \<Longrightarrow> all_known (foldl apply_op ch ops)"
  by (induction ops arbitrary: ch) (simp_all add: apply_op_known)

lemma new_queue_known: "all_known (eventChan NewInputManager)"
  by (simp add: all_known_def NewInputManager_def make_chan_def)

text \<open>
  C10. Whatever the readers and the consumer do to a new manager's queue, in any order,
  every event in the queue has a code other than \<open>KeyUnknown\<close>, one of Up, Down,
  Select, Escape, Quit and the digits 1 to 9, and so has every event \<open>GetEvent\<close>
  hands to the consumer. The hardware handler leaves the queue alone when the translated
  code is \<open>KeyUnknown\<close>, and the keyboard reader goes on to the next byte without a
  push when the byte is not one it decodes.
\<close>

theorem queue_holds_known_codes:
  "(\<forall>e \<in> set (chan_buf (foldl apply_op (eventChan NewInputManager) ops)).
       Code e \<noteq> KeyUnknown \<and> known_code (Code e)) \<and>
   (GetEvent (foldl apply_op (eventChan NewInputManager) ops) = Some (ev, ch') \<longrightarrow>
       Code ev \<noteq> KeyUnknown \<and> known_code (Code ev)) \<and>
   (Code (translateKeyCode keyCode) = KeyUnknown \<longrightarrow>
       snd (handleKeyEvent ch device keyCode val) = ch) \<and>
   (char \<noteq> byte_ESC \<and> decodeChar char = None \<longrightarrow>
       listenKeyboard ch (ReadByte char # rs) = listenKeyboard ch rs)"
proof -
  have k: "all_known (foldl apply_op (eventChan NewInputManager) ops)"
    by (rule foldl_apply_op_known [OF new_queue_known])
  then have 1: "\<forall>e \<in> set (chan_buf (foldl apply_op (eventChan NewInputManager) ops)).
       Code e \<noteq> KeyUnknown \<and> known_code (Code e)"
    by (auto simp: all_known_def list_all_iff known_not_unknown)
  have 2: "Code ev \<noteq> KeyUnknown \<and> known_code (Code ev)"
    if "GetEvent (foldl apply_op (eventChan NewInputManager) ops) = Some (ev, ch')"
    using recv_known [OF k] that known_not_unknown by (auto simp: GetEvent_def)
  have 3: "Code (translateKeyCode keyCode) = KeyUnknown \<longrightarrow>
       snd (handleKeyEvent ch device keyCode val) = ch"
    by (simp add: handleKeyEvent_def Let_def)
  have 4: "char \<noteq> byte_ESC \<and> decodeChar char = None \<longrightarrow>
       listenKeyboard ch (ReadByte char # rs) = listenKeyboard ch rs"
    by simp
  from 1 2 3 4 show ?thesis by blast
qed


theorem queue_holds_known_codes_witness:
  "(let held = \<lparr>Name = ''gpio-keys'', Path = ''/dev/input/event0'', File = 3,
                  keyStates = [KEY_VOLUMEUP \<mapsto> True, 30 \<mapsto> True]\<rparr>;
        ops = [HandleKeyEvent held 30 0, HandleKeyEvent held KEY_VOLUMEUP 0,
               ListenKeyboard [ReadByte 120, ReadByte 51]]
    in chan_buf (foldl apply_op (eventChan NewInputManager) ops) =
         [\<lparr>Code = KeyUp, Type = KeyPress\<rparr>, \<lparr>Code = KeyQuit + 3, Type = KeyPress\<rparr>] \<and>
       GetEvent (foldl apply_op (eventChan NewInputManager) ops) =
         Some (\<lparr>Code = KeyUp, Type = KeyPress\<rparr>,
               \<lparr>chan_buf = [\<lparr>Code = KeyQuit + 3, Type = KeyPress\<rparr>], chan_cap = 10\<rparr>) \<and>
       Code (translateKeyCode 30) = KeyUnknown \<and>
       snd (handleKeyEvent (eventChan NewInputManager) held 30 0) = eventChan NewInputManager \<and>
       decodeChar 120 = None \<and>
       listenKeyboard (eventChan NewInputManager) [ReadByte 120] = eventChan NewInputManager \<and>
       known_code (KeyQuit + 3) \<and> known_code KeyUp)"
  using queue_holds_known_codes
    [of "[HandleKeyEvent \<lparr>Name = ''gpio-keys'', Path = ''/dev/input/event0'', File = 3,
                  keyStates = [KEY_VOLUMEUP \<mapsto> True, 30 \<mapsto> True]\<rparr> 30 0,
          HandleKeyEvent \<lparr>Name = ''gpio-keys'', Path = ''/dev/input/event0'', File = 3,
                  keyStates = [KEY_VOLUMEUP \<mapsto> True, 30 \<mapsto> True]\<rparr> KEY_VOLUMEUP 0,
          ListenKeyboard [ReadByte 120, ReadByte 51]]"
        "\<lparr>Code = KeyUp, Type = KeyPress\<rparr>"
        "\<lparr>chan_buf = [\<lparr>Code = KeyQuit + 3, Type = KeyPress\<rparr>], chan_cap = 10\<rparr>"
        30 "eventChan NewInputManager"
        "\<lparr>Name = ''gpio-keys'', Path = ''/dev/input/event0'', File = 3,
                  keyStates = [KEY_VOLUMEUP \<mapsto> True, 30 \<mapsto> True]\<rparr>"
        0 120 "[]"]
  by (simp add: Let_def handleKeyEvent_def pressed_def translateKeyCode_def decodeChar_def
      try_send_def recv_def GetEvent_def NewInputManager_def make_chan_def known_code_def
      KeyCode_defs)

section \<open>The keyboard fallback reader\<close>

text \<open>
  C6. The keyboard reader decodes the byte 27 as follows: followed by \<open>[\<close> and
  \<open>A\<close> it pushes Up; by \<open>[\<close> and \<open>B\<close>, Down; by \<open>[\<close> and any other
  byte, or by \<open>[\<close> and a failed read, Escape; by a byte other than \<open>[\<close>, or by a
  failed read, Escape. In each case it goes on with the reads after the sequence.
\<close>

theorem listenKeyboard_escape_sequences:
  "listenKeyboard ch (ReadByte byte_ESC # ReadByte byte_bracket # ReadByte byte_A # rs) =
     listenKeyboard (try_send ch \<lparr>Code = KeyUp, Type = KeyPress\<rparr>) rs \<and>
   listenKeyboard ch (ReadByte byte_ESC # ReadByte byte_bracket # ReadByte byte_B # rs) =
     listenKeyboard (try_send ch \<lparr>Code = KeyDown, Type = KeyPress\<rparr>) rs \<and>
   (third \<noteq> byte_A \<and> third \<noteq> byte_B \<longrightarrow>
      listenKeyboard ch (ReadByte byte_ESC # ReadByte byte_bracket # ReadByte third # rs) =
        listenKeyboard (try_send ch \<lparr>Code = KeyEscape, Type = KeyPress\<rparr>) rs) \<and>
   listenKeyboard ch (ReadByte byte_ESC # ReadByte byte_bracket # ReadFail # rs) =
     listenKeyboard (try_send ch \<lparr>Code = KeyEscape, Type = KeyPress\<rparr>) rs \<and>
   (second \<noteq> byte_bracket \<longrightarrow>
      listenKeyboard ch (ReadByte byte_ESC # ReadByte second # rs) =
        listenKeyboard (try_send ch \<lparr>Code = KeyEscape, Type = KeyPress\<rparr>) rs) \<and>
   listenKeyboard ch (ReadByte byte_ESC # ReadFail # rs) =
     listenKeyboard (try_send ch \<lparr>Code = KeyEscape, Type = KeyPress\<rparr>) rs"
  by simp

theorem listenKeyboard_escape_sequences_witness:
  "chan_buf (listenKeyboard (eventChan NewInputManager)
     [ReadByte byte_ESC, ReadByte byte_bracket, ReadByte 90]) =
     [\<lparr>Code = KeyEscape, Type = KeyPress\<rparr>] \<and>
   chan_buf (listenKeyboard (eventChan NewInputManager) [ReadByte byte_ESC, ReadByte 120]) =
     [\<lparr>Code = KeyEscape, Type = KeyPress\<rparr>] \<and>
   chan_buf (listenKeyboard (eventChan NewInputManager)
     [ReadByte byte_ESC, ReadByte byte_bracket, ReadByte byte_A]) =
     [\<lparr>Code = KeyUp, Type = KeyPress\<rparr>]"
  using listenKeyboard_escape_sequences [of "eventChan NewInputManager" "[]" 90 120]
  by (simp add: try_send_def NewInputManager_def make_chan_def)

section \<open>Device discovery by name pattern\<close>

lemma HasPrefix_iff: "HasPrefix s p \<longleftrightarrow> (\<exists>post. s = p @ post)"
  by (induction s p rule: HasPrefix.induct) auto

lemma Contains_iff: "Contains s sub \<longleftrightarrow> (\<exists>pre post. s = pre @ sub @ post)"
proof (induction s)
  case Nil
  then show ?case by auto
next
  case (Cons c cs)
  show ?case
  proof
    assume "Contains (c # cs) sub"
    then consider "HasPrefix (c # cs) sub" | "Contains cs sub" by auto
    then show "\<exists>pre post. c # cs = pre @ sub @ post"
    proof cases
      case 1
      then obtain post where "c # cs = sub @ post" by (auto simp: HasPrefix_iff)
      then have "c # cs = [] @ sub @ post" by simp
      then show ?thesis by blast
    next
      case 2
      with Cons.IH obtain pre post where "cs = pre @ sub @ post" by blast
      then have "c # cs = (c # pre) @ sub @ post" by simp
      then show ?thesis by blast
    qed
  next
    assume "\<exists>pre post. c # cs = pre @ sub @ post"
    then obtain pre post where e: "c # cs = pre @ sub @ post" by blast
    show "Contains (c # cs) sub"
    proof (cases pre)
      case Nil
      with e have "HasPrefix (c # cs) sub" by (auto simp: HasPrefix_iff)
      then show ?thesis by simp
    next
      case (Cons p pre')
      with e have "cs = pre' @ sub @ post" by simp
      with Cons.IH have "Contains cs sub" by blast
      then show ?thesis by simp
    qed
  qed
qed

lemma hasRelevantKeys_iff:
  "hasRelevantKeys file name \<longleftrightarrow>
     (\<exists>p \<in> set patterns. \<exists>pre post. ToLower name = pre @ p @ post)"
  by (simp add: hasRelevantKeys_def list_ex_iff Contains_iff)

lemma discover_np_evbits:
  "discover_np (map (\<lambda>e. e\<lparr>de_evbits_reply := r e\<rparr>) entries) acc = discover_np entries acc"
proof (induction entries arbitrary: acc)
  case Nil
  then show ?case by simp
next
  case (Cons e es)
  obtain devs closed where acc: "acc = (devs, closed)" by (cases acc)
  show ?case
    unfolding acc by (simp add: Cons.IH split: option.splits)
qed

lemma lower_pattern: "ToLower ''gpio-keys'' = ''gpio-keys''"
  by code_simp

lemma gpio_keys_relevant: "hasRelevantKeys file ''gpio-keys''"
  unfolding hasRelevantKeys_def lower_pattern by (simp add: patterns_def)

lemma set_map_filter:
  "set (List.map_filter f xs) = {y. \<exists>x \<in> set xs. f x = Some y}"
  by (induction xs) (auto split: option.splits)

lemma discover_np_map_filter:
  "discover_np entries (devs, closed) =
     (devs @ List.map_filter accepted_device entries,
      closed @ List.map_filter closed_handle entries)"
proof (induction entries arbitrary: devs closed)
  case Nil
  show ?case by (simp add: List.map_filter_simps)
next
  case (Cons e es)
  show ?case
    by (simp add: Cons.IH accepted_device_def closed_handle_def List.map_filter_simps
        split: option.splits)
qed

lemma accepted_device_relevant:
  "accepted_device entry = Some d \<Longrightarrow> hasRelevantKeys (File_np d) (Name_np d)"
  by (auto simp: accepted_device_def split: if_splits option.splits)

lemma closed_handle_cases:
  "closed_handle entry = Some h \<Longrightarrow>
   HasPrefix (de_Name entry) ''event'' \<and> de_open entry = Some h \<and>
   (case getDeviceName (de_name_reply entry) of
      None \<Rightarrow> True | Some name \<Rightarrow> \<not> hasRelevantKeys h name)"
  by (auto simp: closed_handle_def split: if_splits option.splits)

text \<open>
  C9. Under the name-pattern policy a device is accepted exactly when its lower-cased
  name contains one of \<open>gpio-keys\<close>, \<open>power\<close>, \<open>volume\<close>, \<open>button\<close>,
  \<open>pmic\<close>, \<open>keyboard\<close>. Discovery gives the same result whatever a capability
  query would answer for any device, so a device named \<open>gpio-keys\<close> is accepted also
  when that query would fail. For every directory listing, discovery goes through all
  the entries: it appends, in order, the device of each event node that opens, answers
  the name query and has a matching name, and it closes, in order, the handle of each
  event node that opens and fails the name query or has no matching name. So an entry
  anywhere in the listing whose name matches is among the devices, one whose name
  matches no pattern has its handle closed, every device added has a matching name, and
  every handle closed belongs to a node that was not accepted.
\<close>

theorem name_pattern_policy:
  "(hasRelevantKeys file name \<longleftrightarrow>
      (\<exists>p \<in> set patterns. \<exists>pre post. ToLower name = pre @ p @ post)) \<and>
   patterns = [''gpio-keys'', ''power'', ''volume'', ''button'', ''pmic'', ''keyboard''] \<and>
   hasRelevantKeys file ''gpio-keys'' \<and>
   DiscoverDevices_np (map_option (map (\<lambda>e. e\<lparr>de_evbits_reply := r e\<rparr>)) readdir) devs0 =
     DiscoverDevices_np readdir devs0 \<and>
   (HasPrefix (de_Name entry) ''event'' \<and> de_open entry = Some handle \<and>
    getDeviceName (de_name_reply entry) = Some devname \<longrightarrow>
      DiscoverDevices_np (Some [entry]) devs0 =
        (if hasRelevantKeys handle devname
         then Inr (devs0 @ [\<lparr>Name_np = devname, Path_np = ''/dev/input/'' @ de_Name entry,
                             File_np = handle\<rparr>], [])
         else Inr (devs0, [handle]))) \<and>
   DiscoverDevices_np (Some entries) devs0 =
     Inr (devs0 @ List.map_filter accepted_device entries,
          List.map_filter closed_handle entries) \<and>
   (entry \<in> set entries \<and> HasPrefix (de_Name entry) ''event'' \<and> de_open entry = Some handle \<and>
    getDeviceName (de_name_reply entry) = Some devname \<longrightarrow>
      (if hasRelevantKeys handle devname
       then \<lparr>Name_np = devname, Path_np = ''/dev/input/'' @ de_Name entry, File_np = handle\<rparr>
              \<in> set (fst (discover_np entries (devs0, [])))
       else handle \<in> set (snd (discover_np entries (devs0, []))))) \<and>
   (d \<in> set (fst (discover_np entries (devs0, []))) \<longrightarrow>
      d \<in> set devs0 \<or>
      (hasRelevantKeys (File_np d) (Name_np d) \<and>
       (\<exists>e \<in> set entries. HasPrefix (de_Name e) ''event'' \<and> de_open e = Some (File_np d) \<and>
          getDeviceName (de_name_reply e) = Some (Name_np d)))) \<and>
   (h \<in> set (snd (discover_np entries (devs0, []))) \<longrightarrow>
      (\<exists>e \<in> set entries. HasPrefix (de_Name e) ''event'' \<and> de_open e = Some h \<and>
         (case getDeviceName (de_name_reply e) of
            None \<Rightarrow> True | Some name \<Rightarrow> \<not> hasRelevantKeys h name)))"
proof -
  have 1: "hasRelevantKeys file name \<longleftrightarrow>
      (\<exists>p \<in> set patterns. \<exists>pre post. ToLower name = pre @ p @ post)"
    by (rule hasRelevantKeys_iff)
  have 2: "DiscoverDevices_np (map_option (map (\<lambda>e. e\<lparr>de_evbits_reply := r e\<rparr>)) readdir) devs0 =
     DiscoverDevices_np readdir devs0"
    by (cases readdir) (simp_all add: DiscoverDevices_np_def discover_np_evbits)
  have 3: "DiscoverDevices_np (Some [entry]) devs0 =
        (if hasRelevantKeys handle devname
         then Inr (devs0 @ [\<lparr>Name_np = devname, Path_np = ''/dev/input/'' @ de_Name entry,
                             File_np = handle\<rparr>], [])
         else Inr (devs0, [handle]))"
    if "HasPrefix (de_Name entry) ''event'' \<and> de_open entry = Some handle \<and>
      getDeviceName (de_name_reply entry) = Some devname"
    using that by (simp add: DiscoverDevices_np_def)
  have 4: "DiscoverDevices_np (Some entries) devs0 =
     Inr (devs0 @ List.map_filter accepted_device entries,
          List.map_filter closed_handle entries)"
    by (simp add: DiscoverDevices_np_def discover_np_map_filter)
  have 5: "if hasRelevantKeys handle devname
       then \<lparr>Name_np = devname, Path_np = ''/dev/input/'' @ de_Name entry, File_np = handle\<rparr>
              \<in> set (fst (discover_np entries (devs0, [])))
       else handle \<in> set (snd (discover_np entries (devs0, [])))"
    if a: "entry \<in> set entries \<and> HasPrefix (de_Name entry) ''event'' \<and>
      de_open entry = Some handle \<and> getDeviceName (de_name_reply entry) = Some devname"
  proof (cases "hasRelevantKeys handle devname")
    case True
    with a have "accepted_device entry =
        Some \<lparr>Name_np = devname, Path_np = ''/dev/input/'' @ de_Name entry, File_np = handle\<rparr>"
      by (simp add: accepted_device_def)
    with a True show ?thesis
      by (auto simp: discover_np_map_filter set_map_filter)
  next
    case False
    with a have "closed_handle entry = Some handle"
      by (simp add: closed_handle_def)
    with a False show ?thesis
      by (auto simp: discover_np_map_filter set_map_filter)
  qed
  have 6: "d \<in> set devs0 \<or>
      (hasRelevantKeys (File_np d) (Name_np d) \<and>
       (\<exists>e \<in> set entries. HasPrefix (de_Name e) ''event'' \<and> de_open e = Some (File_np d) \<and>
          getDeviceName (de_name_reply e) = Some (Name_np d)))"
    if "d \<in> set (fst (discover_np entries (devs0, [])))"
  proof (cases "d \<in> set devs0")
    case True
    then show ?thesis by simp
  next
    case False
    with that obtain e where e: "e \<in> set entries" "accepted_device e = Some d"
      by (auto simp: discover_np_map_filter set_map_filter)
    from e(2) have "HasPrefix (de_Name e) ''event'' \<and> de_open e = Some (File_np d) \<and>
          getDeviceName (de_name_reply e) = Some (Name_np d)"
      by (auto simp: accepted_device_def split: if_splits option.splits)
    with e accepted_device_relevant [OF e(2)] show ?thesis by blast
  qed
  have 7: "\<exists>e \<in> set entries. HasPrefix (de_Name e) ''event'' \<and> de_open e = Some h \<and>
         (case getDeviceName (de_name_reply e) of
            None \<Rightarrow> True | Some name \<Rightarrow> \<not> hasRelevantKeys h name)"
    if "h \<in> set (snd (discover_np entries (devs0, [])))"
  proof -
    from that obtain e where e: "e \<in> set entries" "closed_handle e = Some h"
      by (auto simp: discover_np_map_filter set_map_filter)
    with closed_handle_cases [OF e(2)] show ?thesis by blast
  qed
  have 8: "patterns = [''gpio-keys'', ''power'', ''volume'', ''button'', ''pmic'', ''keyboard'']"
    by (simp add: patterns_def)
  from 1 2 3 4 5 6 7 8 gpio_keys_relevant show ?thesis
    by blast
qed


theorem name_pattern_policy_witness:
  "(let mice = \<lparr>de_Name = ''mice'', de_open = Some 2, de_name_reply = None,
                 de_evbits_reply = None\<rparr>;
        gpio = \<lparr>de_Name = ''event0'', de_open = Some 3,
                 de_name_reply = Some (''GPIO-Keys'' @ CHR 0x00 # replicate 246 (CHR 0x00)),
                 de_evbits_reply = None\<rparr>;
        touch = \<lparr>de_Name = ''event1'', de_open = Some 4,
                  de_name_reply = Some (''touchscreen'' @ CHR 0x00 # replicate 244 (CHR 0x00)),
                  de_evbits_reply = Some [0x0B, 0, 0, 0]\<rparr>;
        locked = \<lparr>de_Name = ''event2'', de_open = None, de_name_reply = None,
                   de_evbits_reply = None\<rparr>;
        mute = \<lparr>de_Name = ''event3'', de_open = Some 5, de_name_reply = None,
                 de_evbits_reply = Some [0x03, 0, 0, 0]\<rparr>;
        dev = \<lparr>Name_np = ''GPIO-Keys'', Path_np = ''/dev/input/event0'', File_np = 3\<rparr>
    in DiscoverDevices_np (Some [mice, locked, mute, gpio, touch]) [] = Inr ([dev], [5, 4]) \<and>
       DiscoverDevices_np (Some [gpio]) [] = Inr ([dev], []) \<and>
       accepted_device gpio = Some dev \<and> closed_handle touch = Some 4 \<and>
       hasRelevantKeys 3 ''GPIO-Keys'' \<and> ToLower ''GPIO-Keys'' = [] @ ''gpio-keys'' @ [])"
proof -
  have n: "getDeviceName (Some (''GPIO-Keys'' @ CHR 0x00 # replicate 246 (CHR 0x00))) =
      Some ''GPIO-Keys''"
    "getDeviceName (Some (''touchscreen'' @ CHR 0x00 # replicate 244 (CHR 0x00))) =
      Some ''touchscreen''"
    by (simp_all add: getDeviceName_def)
  have l: "ToLower ''GPIO-Keys'' = ''gpio-keys''" "ToLower ''touchscreen'' = ''touchscreen''"
    by code_simp+
  have h: "hasRelevantKeys 3 ''GPIO-Keys''" "\<not> hasRelevantKeys 4 ''touchscreen''"
    unfolding hasRelevantKeys_def l by (simp_all add: patterns_def)
  show ?thesis
    using name_pattern_policy
      [of 3 "''GPIO-Keys''" "\<lambda>e. None" "Some []" "[]"
          "\<lparr>de_Name = ''event0'', de_open = Some 3,
            de_name_reply = Some (''GPIO-Keys'' @ CHR 0x00 # replicate 246 (CHR 0x00)),
            de_evbits_reply = None\<rparr>" 3 "''GPIO-Keys''"
          "[\<lparr>de_Name = ''mice'', de_open = Some 2, de_name_reply = None,
             de_evbits_reply = None\<rparr>,
            \<lparr>de_Name = ''event2'', de_open = None, de_name_reply = None,
             de_evbits_reply = None\<rparr>,
            \<lparr>de_Name = ''event3'', de_open = Some 5, de_name_reply = None,
             de_evbits_reply = Some [0x03, 0, 0, 0]\<rparr>,
            \<lparr>de_Name = ''event0'', de_open = Some 3,
             de_name_reply = Some (''GPIO-Keys'' @ CHR 0x00 # replicate 246 (CHR 0x00)),
             de_evbits_reply = None\<rparr>,
            \<lparr>de_Name = ''event1'', de_open = Some 4,
             de_name_reply = Some (''touchscreen'' @ CHR 0x00 # replicate 244 (CHR 0x00)),
             de_evbits_reply = Some [0x0B, 0, 0, 0]\<rparr>]"
          "\<lparr>Name_np = ''GPIO-Keys'', Path_np = ''/dev/input/event0'', File_np = 3\<rparr>" 4]
      n l h
    by (simp add: Let_def DiscoverDevices_np_def accepted_device_def closed_handle_def
        getDeviceName_def)
qed

section \<open>The menu loop\<close>

lemma move_up_in_range: "in_range m \<Longrightarrow> in_range (move_up m)"
  by (simp add: in_range_def move_up_def)

lemma move_down_in_range: "in_range m \<Longrightarrow> in_range (move_down m)"
  by (simp add: in_range_def move_down_def)

lemma move_Items [simp]: "Items (move_up m) = Items m" "Items (move_down m) = Items m"
  by (simp_all add: move_up_def move_down_def)

lemma move_Timeout [simp]: "Timeout (move_up m) = Timeout m" "Timeout (move_down m) = Timeout m"
  by (simp_all add: move_up_def move_down_def)

lemma nav_move_in_range: "in_range m \<Longrightarrow> in_range (nav_move n m)"
  by (cases n) (simp_all add: move_up_in_range move_down_in_range)

lemma fold_nav_move_in_range: "in_range m \<Longrightarrow> in_range (fold nav_move ns m)"
  by (induction ns arbitrary: m) (simp_all add: nav_move_in_range)

lemma menu_iteration_nav:
  "menu_iteration m (InputCh (nav_key n)) (nav_read n @ stdin) = Continue (nav_move n m) stdin"
  by (cases n) (simp_all add: menu_iteration_def read_buf_def)

lemma menu_loop_nav:
  "menu_loop m (map (\<lambda>n. InputCh (nav_key n)) ns) (concat (map nav_read ns) @ stdin) =
     Waiting (fold nav_move ns m) stdin"
  by (induction ns arbitrary: m) (simp_all add: menu_iteration_nav)

lemma menu_iteration_in_range:
  assumes "in_range m"
  shows "case menu_iteration m ev stdin of
           Return m' res \<Rightarrow> in_range m' \<and> Items m' = Items m \<and> Timeout m' = Timeout m
         | Continue m' stdin' \<Rightarrow> in_range m' \<and> Items m' = Items m \<and> Timeout m' = Timeout m
         | BlockedInRead m' \<Rightarrow> in_range m' \<and> Items m' = Items m \<and> Timeout m' = Timeout m"
proof (cases ev)
  case TimerElapsed
  with assms show ?thesis by (simp add: menu_iteration_def)
next
  case (InputCh key)
  have "in_range (m\<lparr>SelectedIndex := uint (key - byte_1)\<rparr>)"
    if "uint (key - byte_1) < int (length (Items m))"
    using that by (simp add: in_range_def)
  with assms InputCh show ?thesis
    by (auto simp: menu_iteration_def Let_def move_up_in_range move_down_in_range
        split: list.splits prod.splits)
qed

lemma menu_loop_in_range:
  "in_range m \<Longrightarrow> in_range (outcome_menu (menu_loop m evs stdin)) \<and>
     Items (outcome_menu (menu_loop m evs stdin)) = Items m \<and>
     Timeout (outcome_menu (menu_loop m evs stdin)) = Timeout m"
proof (induction evs arbitrary: m stdin)
  case Nil
  then show ?case by (simp add: outcome_menu_def)
next
  case (Cons ev evs)
  from menu_iteration_in_range [OF Cons.prems, of ev stdin] Cons.IH
  show ?case
    by (cases "menu_iteration m ev stdin") (auto simp: outcome_menu_def)
qed

text \<open>
  C1. For a menu whose selection index is a valid index of its items (so the item list
  is not empty), the index is still one after any events the loop processes; a sequence
  of Up and Down events, in any of their forms, keeps the loop running and moves the
  index by \<open>max 0 (index - 1)\<close> for Up and \<open>min (len - 1) (index + 1)\<close> for Down.
  Up at index 0 and Down at the last index leave the menu as it is.
\<close>

theorem selection_index_clamped:
  "(in_range m \<longrightarrow>
      in_range (outcome_menu (menu_loop m evs stdin)) \<and>
      menu_loop m (map (\<lambda>n. InputCh (nav_key n)) ns) (concat (map nav_read ns) @ stdin) =
        Waiting (fold nav_move ns m) stdin \<and>
      in_range (fold nav_move ns m) \<and>
      SelectedIndex (move_up m) = max 0 (SelectedIndex m - 1) \<and>
      SelectedIndex (move_down m) = min (int (length (Items m)) - 1) (SelectedIndex m + 1)) \<and>
   (SelectedIndex m = 0 \<longrightarrow> move_up m = m) \<and>
   (SelectedIndex m = int (length (Items m)) - 1 \<longrightarrow> move_down m = m) \<and>
   menu_iteration m (InputCh (nav_key n)) (nav_read n @ stdin) = Continue (nav_move n m) stdin"
proof -
  have "SelectedIndex (move_up m) = max 0 (SelectedIndex m - 1)"
    "SelectedIndex (move_down m) = min (int (length (Items m)) - 1) (SelectedIndex m + 1)"
    if "in_range m"
    using that by (auto simp: in_range_def move_up_def move_down_def)
  moreover have "SelectedIndex m = 0 \<longrightarrow> move_up m = m"
    "SelectedIndex m = int (length (Items m)) - 1 \<longrightarrow> move_down m = m"
    by (simp_all add: move_up_def move_down_def)
  ultimately show ?thesis
    using menu_loop_in_range [of m evs stdin] fold_nav_move_in_range [of m ns]
      menu_loop_nav [of m ns stdin] menu_iteration_nav [of m n stdin]
    by blast
qed

theorem selection_index_clamped_witness:
  "in_range (sample_menu 0 0 True) \<and>
   menu_loop (sample_menu 0 0 True)
     (map InputCh [byte_k, byte_ESC, byte_j, byte_j, byte_j, byte_ESC, byte_ESC])
     [[byte_bracket, byte_B], [byte_bracket, byte_B], [byte_bracket, byte_A]] =
     Waiting (sample_menu 3 0 True) [] \<and>
   move_up (sample_menu 0 0 True) = sample_menu 0 0 True \<and>
   move_down (sample_menu 4 0 True) = sample_menu 4 0 True"
  using selection_index_clamped
    [of "sample_menu 0 0 True" "[]" "[]"
        "[ViUp, ArrowDown, ViDown, ViDown, ViDown, ArrowDown, ArrowUp]" ArrowUp]
    selection_index_clamped [of "sample_menu 4 0 True" "[]" "[]" "[]" ArrowUp]
  by (simp add: sample_menu_def in_range_def move_up_def move_down_def)

section \<open>Digit keys\<close>

lemma digit_key_cases:
  "1 \<le> n \<Longrightarrow> n \<le> 9 \<Longrightarrow> n \<in> {1, 2, 3, 4, 5, 6, 7, 8, 9 :: nat}"
  by auto

lemma digit_key_index:
  assumes "1 \<le> n" "n \<le> 9"
  shows "byte_1 \<le> digit_key n \<and> digit_key n \<le> byte_9 \<and>
         uint (digit_key n - byte_1) = int n - 1 \<and>
         digit_key n \<noteq> byte_LF \<and> digit_key n \<noteq> byte_CR \<and> digit_key n \<noteq> byte_ESC \<and>
         digit_key n \<noteq> byte_q \<and> digit_key n \<noteq> byte_Q \<and> digit_key n \<noteq> byte_j \<and>
         digit_key n \<noteq> byte_k"
  using digit_key_cases [OF assms] by (auto simp: digit_key_def)

lemma menu_iteration_digit:
  assumes "1 \<le> n" "n \<le> 9"
  shows "menu_iteration m (InputCh (digit_key n)) stdin =
     (if n \<le> length (Items m)
      then Return (m\<lparr>SelectedIndex := int n - 1\<rparr>) (Inr (Entry (Items m ! (n - 1))))
      else Continue m stdin)"
proof -
  from assms have "nat (int n - 1) = n - 1" by simp
  with digit_key_index [OF assms] assms show ?thesis
    by (auto simp: menu_iteration_def Let_def entry_at_def)
qed

text \<open>
  C3. When the loop receives the digit key \<open>n\<close> (1 to 9) and the menu has at least
  \<open>n\<close> items, it returns at once with the entry of item \<open>n - 1\<close>, whatever events
  follow; when the menu has fewer than \<open>n\<close> items the key changes nothing and the loop
  goes on with the next event.
\<close>

theorem digit_key_selects:
  "1 \<le> n \<and> n \<le> 9 \<longrightarrow>
     (n \<le> length (Items m) \<longrightarrow>
        menu_loop m (InputCh (digit_key n) # evs) stdin =
          Returned (m\<lparr>SelectedIndex := int n - 1\<rparr>) (Inr (Entry (Items m ! (n - 1))))) \<and>
     (length (Items m) < n \<longrightarrow>
        menu_iteration m (InputCh (digit_key n)) stdin = Continue m stdin \<and>
        menu_loop m (InputCh (digit_key n) # evs) stdin = menu_loop m evs stdin)"
  by (simp add: menu_iteration_digit)

theorem digit_key_selects_witness:
  "digit_key 3 = 51 \<and>
   menu_loop (sample_menu 0 0 True) [InputCh 51, InputCh byte_q] [] =
     Returned (sample_menu 2 0 True) (Inr (Entry (sample_item ''c''))) \<and>
   digit_key 7 = 55 \<and>
   menu_loop (sample_menu 1 0 True) [InputCh 55, InputCh byte_j] [] =
     Waiting (sample_menu 2 0 True) []"
  using digit_key_selects [of 3 "sample_menu 0 0 True" "[InputCh byte_q]" "[]"]
    digit_key_selects [of 7 "sample_menu 1 0 True" "[InputCh byte_j]" "[]"]
  by (simp add: digit_key_def sample_menu_def menu_iteration_def move_down_def)

text \<open>
  The forwarding goroutine has no case for the digit codes: a digit event of the input
  manager is not sent to the loop, which gets digits only as bytes from standard input.
\<close>

lemma forward_event_digit:
  "KeyQuit + 1 \<le> Code event \<Longrightarrow> forward_event event = None"
  by (simp add: forward_event_def KeyCode_defs)

section \<open>Timeout and cancellation\<close>

lemma menu_loop_append:
  "menu_loop m evs stdin = Waiting m' stdin' \<Longrightarrow>
   menu_loop m (evs @ evs') stdin = menu_loop m' evs' stdin'"
proof (induction evs arbitrary: m stdin)
  case Nil
  then show ?case by simp
next
  case (Cons ev evs)
  then show ?case
    by (cases "menu_iteration m ev stdin") simp_all
qed

text \<open>
  C4. The timer is armed exactly when the configured timeout is greater than 0. With a
  timeout configured, when the time runs out while the loop waits in its \<open>select\<close>
  the loop returns the entry at the current selection index, which is what it returns
  for a Select (Enter) at that moment. With no timeout configured the passing of time
  has no effect on the loop.
\<close>

theorem timeout_selects_current:
  "timer_armed m = (Timeout m > 0) \<and>
   (Timeout m > 0 \<and> menu_loop m evs stdin = Waiting m' stdin' \<and> in_range m \<longrightarrow>
      showInteractiveMenu m (evs @ TimerElapsed # rest) stdin =
        Returned m' (Inr (Entry (Items m' ! nat (SelectedIndex m')))) \<and>
      showInteractiveMenu m (evs @ TimerElapsed # rest) stdin =
        showInteractiveMenu m (evs @ InputCh byte_CR # rest) stdin) \<and>
   (Timeout m \<le> 0 \<longrightarrow>
      showInteractiveMenu m (TimerElapsed # rest) stdin = showInteractiveMenu m rest stdin)"
proof -
  have fire: "showInteractiveMenu m (evs @ TimerElapsed # rest) stdin =
        Returned m' (Inr (Entry (Items m' ! nat (SelectedIndex m')))) \<and>
      showInteractiveMenu m (evs @ TimerElapsed # rest) stdin =
        showInteractiveMenu m (evs @ InputCh byte_CR # rest) stdin"
    if t: "Timeout m > 0" and w: "menu_loop m evs stdin = Waiting m' stdin'" and r: "in_range m"
  proof -
    from menu_loop_in_range [OF r, of evs stdin] w
    have m': "in_range m'" "Timeout m' = Timeout m"
      by (simp_all add: outcome_menu_def)
    then have e: "entry_at (Items m') (SelectedIndex m') =
        Inr (Entry (Items m' ! nat (SelectedIndex m')))"
      by (simp add: entry_at_def in_range_def)
    from m' t have "timer_armed m'" by (simp add: timer_armed_def)
    with e show ?thesis
      by (simp add: showInteractiveMenu_def menu_loop_append [OF w] menu_iteration_def)
  qed
  have idle: "showInteractiveMenu m (TimerElapsed # rest) stdin = showInteractiveMenu m rest stdin"
    if "Timeout m \<le> 0"
    using that by (simp add: showInteractiveMenu_def menu_iteration_def timer_armed_def)
  have armed: "timer_armed m = (Timeout m > 0)"
    by (simp add: timer_armed_def)
  from fire idle armed show ?thesis by blast
qed

theorem timeout_selects_current_witness:
  "menu_loop (sample_menu 0 30 True) [InputCh byte_j, InputCh byte_j] [] =
     Waiting (sample_menu 2 30 True) [] \<and>
   showInteractiveMenu (sample_menu 0 30 True) [InputCh byte_j, InputCh byte_j, TimerElapsed] [] =
     Returned (sample_menu 2 30 True) (Inr (Entry (sample_item ''c''))) \<and>
   showInteractiveMenu (sample_menu 0 30 True) [InputCh byte_j, InputCh byte_j, InputCh byte_CR] [] =
     Returned (sample_menu 2 30 True) (Inr (Entry (sample_item ''c''))) \<and>
   showInteractiveMenu (sample_menu 2 0 True) [TimerElapsed] [] = Waiting (sample_menu 2 0 True) []"
  using timeout_selects_current
    [of "sample_menu 0 30 True" "[InputCh byte_j, InputCh byte_j]" "[]"
        "sample_menu 2 30 True" "[]" "[]"]
    timeout_selects_current [of "sample_menu 2 0 True" "[]" "[]" "sample_menu 2 0 True" "[]" "[]"]
  by (simp add: sample_menu_def showInteractiveMenu_def menu_iteration_def move_down_def
      in_range_def timer_armed_def entry_at_def)

text \<open>
  The byte 27 itself, when the menu's own reader of standard input delivers it, starts
  the read of an arrow sequence; followed by bytes that are no arrow it changes nothing
  and the loop goes on.
\<close>

lemma raw_escape_not_cancel:
  "b0 \<noteq> byte_bracket \<Longrightarrow>
   menu_iteration m (InputCh byte_ESC) ([b0, b1] # stdin) = Continue m stdin"
  by (simp add: menu_iteration_def read_buf_def)

text \<open>
  What does cancel the menu: the Quit and Escape events of the input manager both reach
  the loop as the byte \<open>q\<close>, and on the byte \<open>q\<close> or \<open>Q\<close> the loop returns at
  once with the error "menu cancelled by user" and no entry, also after any events that
  left it waiting.
\<close>

lemma quit_escape_cancel:
  "(key = byte_q \<or> key = byte_Q \<longrightarrow>
      menu_loop m (InputCh key # evs) stdin = Returned m (Inl MenuCancelled)) \<and>
   (Code event = KeyQuit \<or> Code event = KeyEscape \<longrightarrow>
      forward_event event = Some byte_q \<and>
      (HasInputManager m \<longrightarrow>
         menu_loop m (forwarder m [event] @ evs) stdin = Returned m (Inl MenuCancelled))) \<and>
   (menu_loop m evs0 stdin = Waiting m' stdin' \<longrightarrow>
      showInteractiveMenu m (evs0 @ InputCh byte_q # evs) stdin = Returned m' (Inl MenuCancelled))"
proof -
  have q: "menu_loop m (InputCh key # evs) stdin = Returned m (Inl MenuCancelled)"
    if "key = byte_q \<or> key = byte_Q" for key m stdin
    using that by (auto simp: menu_iteration_def)
  have f: "forward_event event = Some byte_q" if "Code event = KeyQuit \<or> Code event = KeyEscape"
    using that by (auto simp: forward_event_def KeyCode_defs)
  have g: "menu_loop m (forwarder m [event] @ evs) stdin = Returned m (Inl MenuCancelled)"
    if "Code event = KeyQuit \<or> Code event = KeyEscape" "HasInputManager m"
    using f [OF that(1)] that(2) q [of byte_q]
    by (simp add: forwarder_def List.map_filter_simps)
  have w: "showInteractiveMenu m (evs0 @ InputCh byte_q # evs) stdin = Returned m' (Inl MenuCancelled)"
    if "menu_loop m evs0 stdin = Waiting m' stdin'"
    using menu_loop_append [OF that] q by (simp add: showInteractiveMenu_def)
  from q f g w show ?thesis by blast
qed

lemma quit_escape_cancel_sample:
  "forwarder (sample_menu 1 0 True) [\<lparr>Code = KeyEscape, Type = KeyPress\<rparr>] = [InputCh byte_q] \<and>
   forwarder (sample_menu 0 0 True) [\<lparr>Code = KeyQuit, Type = KeyPress\<rparr>] = [InputCh byte_q] \<and>
   menu_loop (sample_menu 1 0 True)
     (forwarder (sample_menu 1 0 True) [\<lparr>Code = KeyEscape, Type = KeyPress\<rparr>] @ [InputCh byte_CR])
     [] = Returned (sample_menu 1 0 True) (Inl MenuCancelled) \<and>
   menu_loop (sample_menu 1 0 True) [InputCh byte_Q, InputCh byte_CR] [] =
     Returned (sample_menu 1 0 True) (Inl MenuCancelled) \<and>
   showInteractiveMenu (sample_menu 0 0 True) [InputCh byte_j, InputCh byte_q] [] =
     Returned (sample_menu 1 0 True) (Inl MenuCancelled)"
  using quit_escape_cancel
    [of byte_Q "sample_menu 1 0 True" "[InputCh byte_CR]" "[]"
        "\<lparr>Code = KeyEscape, Type = KeyPress\<rparr>" "[InputCh byte_j]" "sample_menu 1 0 True" "[]"]
    quit_escape_cancel
    [of byte_q "sample_menu 0 0 True" "[]" "[]"
        "\<lparr>Code = KeyQuit, Type = KeyPress\<rparr>" "[InputCh byte_j]" "sample_menu 1 0 True" "[]"]
  by (simp add: sample_menu_def showInteractiveMenu_def menu_iteration_def move_down_def
      forwarder_def forward_event_def List.map_filter_simps KeyCode_defs)

text \<open>
  C5. The Escape key typed at the terminal reaches the loop as the byte 27 from the
  menu's own reader of standard input. On that byte the loop never returns: it reads
  two more bytes for an arrow key, is blocked while there are none, and goes on with the
  menu as it was when they are no arrow. So Escape does not cancel the menu, and an
  Enter after it selects the current entry. The command's help text says
  "Q key / ESC: Quit menu", and the keyboard reader of the input package decodes the
  same byte as Escape, which the loop would cancel on.
\<close>

theorem escape_byte_not_cancelled:
  "(\<forall>m' res. menu_iteration m (InputCh byte_ESC) stdin \<noteq> Return m' res) \<and>
   menu_loop (sample_menu 1 0 True) [InputCh byte_ESC] [] = Blocked (sample_menu 1 0 True) \<and>
   menu_loop (sample_menu 1 0 True) [InputCh byte_ESC] [[120, 121]] =
     Waiting (sample_menu 1 0 True) [] \<and>
   menu_loop (sample_menu 1 0 True) [InputCh byte_ESC, InputCh byte_CR] [[120, 121]] =
     Returned (sample_menu 1 0 True) (Inr (Entry (sample_item ''b''))) \<and>
   chan_buf (listenKeyboard (eventChan NewInputManager) [ReadByte byte_ESC, ReadByte 120]) =
     [\<lparr>Code = KeyEscape, Type = KeyPress\<rparr>] \<and>
   forward_event \<lparr>Code = KeyEscape, Type = KeyPress\<rparr> = Some byte_q \<and>
   menu_loop (sample_menu 1 0 True) [InputCh byte_q] [] =
     Returned (sample_menu 1 0 True) (Inl MenuCancelled)"
proof -
  have "menu_iteration m (InputCh byte_ESC) stdin \<noteq> Return m' res" for m' res
    by (simp add: menu_iteration_def split: list.splits prod.splits)
  then show ?thesis
    by (simp add: sample_menu_def menu_iteration_def read_buf_def entry_at_def
        forward_event_def try_send_def NewInputManager_def make_chan_def KeyCode_defs)
qed

section \<open>The numbered prompt\<close>

lemma Scanln_three: "Scanln (''3'' @ [CHR 0x0A]) = ''3''"
  by (simp add: isSpace_def)

lemma Scanln_blank: "Scanln [CHR 0x0A] = []" "Scanln [] = []"
  "Scanln ('' '' @ [CHR 0x0D, CHR 0x0A]) = []"
  by (simp_all add: isSpace_def)

lemma Atoi_three: "Atoi ''3'' = Some 3"
  by (simp add: Atoi_def parse_unsigned_def isDigit_def in_int_range_def)

lemma showSimpleMenu_valid:
  "input \<noteq> [] \<Longrightarrow> Atoi input = Some n \<Longrightarrow> 1 \<le> n \<Longrightarrow> n \<le> int (length (Items m)) \<Longrightarrow>
   showSimpleMenu m input = Inr (Entry (Items m ! nat (n - 1)))"
  by (simp add: showSimpleMenu_def entry_at_def)

text \<open>
  C8. When standard output is no terminal, or the terminal setup fails, \<open>Show\<close>
  runs the numbered prompt. There, with a menu of five items the line \<open>3\<close> gives the
  entry at index 2; for a menu that has items, blank input gives the entry at index 0;
  input that \<open>Atoi\<close> reads as a number from 1 to the number of items gives the entry
  before that number; and input that \<open>Atoi\<close> rejects, or reads as a number outside
  that range, gives the error "invalid selection" and no entry.
\<close>

theorem simple_menu_fallback:
  "(\<not> IsTTY (Terminal m) \<or> \<not> setup_ok \<longrightarrow>
      Show m setup_ok line evs stdin = Returned m (showSimpleMenu m (Scanln line))) \<and>
   (length (Items m) = 5 \<longrightarrow>
      showSimpleMenu m (Scanln (''3'' @ [CHR 0x0A])) = Inr (Entry (Items m ! 2))) \<and>
   (Items m \<noteq> [] \<longrightarrow>
      showSimpleMenu m (Scanln [CHR 0x0A]) = Inr (Entry (Items m ! 0)) \<and>
      showSimpleMenu m [] = Inr (Entry (Items m ! 0))) \<and>
   (input \<noteq> [] \<and> Atoi input = Some n \<and> 1 \<le> n \<and> n \<le> int (length (Items m)) \<longrightarrow>
      showSimpleMenu m input = Inr (Entry (Items m ! nat (n - 1)))) \<and>
   (input \<noteq> [] \<and> Atoi input = None \<longrightarrow>
      showSimpleMenu m input = Inl (InvalidSelection input)) \<and>
   (input \<noteq> [] \<and> Atoi input = Some n \<and> (n < 1 \<or> int (length (Items m)) < n) \<longrightarrow>
      showSimpleMenu m input = Inl (InvalidSelection input))"
proof -
  have 1: "Show m setup_ok line evs stdin = Returned m (showSimpleMenu m (Scanln line))"
    if "\<not> IsTTY (Terminal m) \<or> \<not> setup_ok"
    using that by (auto simp: Show_def)
  have 2: "showSimpleMenu m (Scanln (''3'' @ [CHR 0x0A])) = Inr (Entry (Items m ! 2))"
    if "length (Items m) = 5"
    using showSimpleMenu_valid [of "''3''" 3 m] that
    unfolding Scanln_three by (simp add: Atoi_three)
  have 3: "showSimpleMenu m (Scanln [CHR 0x0A]) = Inr (Entry (Items m ! 0)) \<and>
      showSimpleMenu m [] = Inr (Entry (Items m ! 0))"
    if "Items m \<noteq> []"
    using that by (simp add: Scanln_blank showSimpleMenu_def entry_at_def)
  have 4: "showSimpleMenu m input = Inr (Entry (Items m ! nat (n - 1)))"
    if "input \<noteq> [] \<and> Atoi input = Some n \<and> 1 \<le> n \<and> n \<le> int (length (Items m))"
    using that showSimpleMenu_valid by blast
  have 5: "showSimpleMenu m input = Inl (InvalidSelection input)"
    if "input \<noteq> [] \<and> Atoi input = None"
    using that by (simp add: showSimpleMenu_def)
  have 6: "showSimpleMenu m input = Inl (InvalidSelection input)"
    if "input \<noteq> [] \<and> Atoi input = Some n \<and> (n < 1 \<or> int (length (Items m)) < n)"
    using that by (auto simp: showSimpleMenu_def)
  from 1 2 3 4 5 6 show ?thesis by blast
qed

theorem simple_menu_fallback_witness:
  "Show (sample_menu 0 0 False) True (''3'' @ [CHR 0x0A]) [] [] =
     Returned (sample_menu 0 0 False) (Inr (Entry (sample_item ''c''))) \<and>
   Show (sample_menu 0 0 True) False [CHR 0x0A] [] [] =
     Returned (sample_menu 0 0 True) (Inr (Entry (sample_item ''a''))) \<and>
   showSimpleMenu (sample_menu 0 0 False) ''abc'' = Inl (InvalidSelection ''abc'') \<and>
   showSimpleMenu (sample_menu 0 0 False) ''6'' = Inl (InvalidSelection ''6'') \<and>
   showSimpleMenu (sample_menu 0 0 False) ''0'' = Inl (InvalidSelection ''0'') \<and>
   showSimpleMenu (sample_menu 0 0 False) ''5'' = Inr (Entry (sample_item ''e''))"
proof -
  have a: "Atoi ''abc'' = None" "Atoi ''0'' = Some 0" "Atoi ''6'' = Some 6"
    "Atoi ''5'' = Some 5"
    by (simp_all add: Atoi_def parse_unsigned_def isDigit_def in_int_range_def)
  show ?thesis
    using simple_menu_fallback
      [of "sample_menu 0 0 False" True "''3'' @ [CHR 0x0A]" "[]" "[]" "''abc''" 0]
      simple_menu_fallback
      [of "sample_menu 0 0 True" False "[CHR 0x0A]" "[]" "[]" "''6''" 6]
      simple_menu_fallback
      [of "sample_menu 0 0 False" True "[]" "[]" "[]" "''0''" 0]
      simple_menu_fallback
      [of "sample_menu 0 0 False" True "[]" "[]" "[]" "''5''" 5]
      a
    by (simp add: sample_menu_def isSpace_def Show_def showSimpleMenu_def entry_at_def)
qed

end
